theory Spec2Isabelle
  imports Main "HOL-Library.Sublist"
begin

section \<open>Values, objects and the store\<close>

text \<open>
  The engine keeps node parameters in untyped fields (\<^verbatim>\<open>flow_params: any\<close>,
  \<^verbatim>\<open>node_params: any\<close>) and copies them with a deep clone, while the successor
  \<^verbatim>\<open>Map\<close> is copied shallowly. Object identity therefore matters, and objects live in
  an explicit store: a value is a primitive or a reference, a plain object is an ordered list
  of own properties, a \<^verbatim>\<open>Map\<close> is an ordered list of entries, and a node is a record
  of its fields. Addresses are indices into the three parts of the store; allocation appends.
  Numbers are integers, and property lookup sees own properties only.
\<close>

type_synonym addr = nat

datatype val = VUndef | VNull | VBool bool | VNum int | VStr string | VRef addr

datatype cell = CObj "(string \<times> val) list" | CArr "val list"

datatype node_kind = StartNode | ProcessNode | MCPNode | FinishNode | Flow addr | BatchFlow addr

record node =
  kind :: node_kind
  flow_params :: val
  node_params :: val
  successors :: addr

record heap =
  objs :: "cell list"
  maps :: "(string \<times> addr) list list"
  nodes :: "node list"

text \<open>
  What the code throws: a plain \<^verbatim>\<open>Error\<close> with its message, an error tagged
  \<^verbatim>\<open>isModelError\<close> with its message and details object, an error tagged
  \<^verbatim>\<open>isCriticalToolError\<close>, or the runtime's TypeError.
\<close>

datatype error =
    Error string
  | ModelError string "(string \<times> val) list"
  | CriticalToolError string
  | TypeError string

text \<open>
  An operation has three outcomes: \<open>None\<close> when the model has no answer (an address outside
  the store, a cyclic parameter object, or the step budget of a loop used up),
  \<open>Some (Inl e)\<close> when the code throws \<open>e\<close>, \<open>Some (Inr r)\<close> when it returns \<open>r\<close>.
\<close>

definition DEFAULT_ACTION :: string where
  "DEFAULT_ACTION = ''default''"

definition truthy :: "val \<Rightarrow> bool" where
  "truthy v = (case v of VUndef \<Rightarrow> False | VNull \<Rightarrow> False | VBool b \<Rightarrow> b
     | VNum n \<Rightarrow> n \<noteq> 0 | VStr s \<Rightarrow> s \<noteq> [] | VRef a \<Rightarrow> True)"

definition obj_at :: "heap \<Rightarrow> addr \<Rightarrow> cell option" where
  "obj_at h a = (if a < length (objs h) then Some (objs h ! a) else None)"

definition map_at :: "heap \<Rightarrow> addr \<Rightarrow> (string \<times> addr) list option" where
  "map_at h a = (if a < length (maps h) then Some (maps h ! a) else None)"

definition node_at :: "heap \<Rightarrow> addr \<Rightarrow> node option" where
  "node_at h a = (if a < length (nodes h) then Some (nodes h ! a) else None)"

definition alloc_obj :: "heap \<Rightarrow> cell \<Rightarrow> heap \<times> addr" where
  "alloc_obj h c = (h\<lparr>objs := objs h @ [c]\<rparr>, length (objs h))"

definition alloc_map :: "heap \<Rightarrow> (string \<times> addr) list \<Rightarrow> heap \<times> addr" where
  "alloc_map h m = (h\<lparr>maps := maps h @ [m]\<rparr>, length (maps h))"

definition alloc_node :: "heap \<Rightarrow> node \<Rightarrow> heap \<times> addr" where
  "alloc_node h n = (h\<lparr>nodes := nodes h @ [n]\<rparr>, length (nodes h))"

definition set_node :: "heap \<Rightarrow> addr \<Rightarrow> node \<Rightarrow> heap" where
  "set_node h a n = h\<lparr>nodes := (nodes h)[a := n]\<rparr>"

definition set_map :: "heap \<Rightarrow> addr \<Rightarrow> (string \<times> addr) list \<Rightarrow> heap" where
  "set_map h a m = h\<lparr>maps := (maps h)[a := m]\<rparr>"

definition set_obj :: "heap \<Rightarrow> addr \<Rightarrow> cell \<Rightarrow> heap" where
  "set_obj h a c = h\<lparr>objs := (objs h)[a := c]\<rparr>"

fun string_of_nat :: "nat \<Rightarrow> string" where
  "string_of_nat n = (if n < 10 then [char_of (48 + n)]
     else string_of_nat (n div 10) @ [char_of (48 + n mod 10)])"

text \<open>
  Own-property lookup \<^verbatim>\<open>v?.k\<close>: the property of an object, the length or an element
  of an array, undefined on anything else.
\<close>

definition arr_prop :: "val list \<Rightarrow> string \<Rightarrow> val" where
  "arr_prop xs k = (if k = ''length'' then VNum (int (length xs))
     else (case filter (\<lambda>i. string_of_nat i = k) [0..<length xs] of
             i # rest \<Rightarrow> xs ! i
           | [] \<Rightarrow> VUndef))"

definition get_prop :: "heap \<Rightarrow> val \<Rightarrow> string \<Rightarrow> val" where
  "get_prop h v k = (case v of
       VRef a \<Rightarrow> (case obj_at h a of
           Some (CObj fs) \<Rightarrow> (case map_of fs k of Some x \<Rightarrow> x | None \<Rightarrow> VUndef)
         | Some (CArr xs) \<Rightarrow> arr_prop xs k
         | None \<Rightarrow> VUndef)
     | _ \<Rightarrow> VUndef)"

text \<open>
  Plain lookup \<^verbatim>\<open>v.k\<close>: a TypeError on undefined and null (the wording of its
  message is the runtime's; the model's names the property).
\<close>

definition get_prop_strict :: "heap \<Rightarrow> val \<Rightarrow> string \<Rightarrow> error + val" where
  "get_prop_strict h v k = (case v of
       VUndef \<Rightarrow> Inl (TypeError (''Cannot read properties of undefined: '' @ k))
     | VNull \<Rightarrow> Inl (TypeError (''Cannot read properties of null: '' @ k))
     | _ \<Rightarrow> Inr (get_prop h v k))"

subsection \<open>The Map operations the engine uses\<close>

definition Map_has :: "(string \<times> 'a) list \<Rightarrow> string \<Rightarrow> bool" where
  "Map_has m k = (map_of m k \<noteq> None)"

fun Map_set :: "(string \<times> 'a) list \<Rightarrow> string \<Rightarrow> 'a \<Rightarrow> (string \<times> 'a) list" where
  "Map_set [] k v = [(k, v)]"
| "Map_set ((k', v') # m) k v = (if k' = k then (k, v) # m else (k', v') # Map_set m k v)"

definition Map_keys :: "(string \<times> 'a) list \<Rightarrow> string list" where
  "Map_keys m = map fst m"

definition Map_values :: "(string \<times> 'a) list \<Rightarrow> 'a list" where
  "Map_values m = map snd m"

section \<open>BaseNode\<close>

text \<open>The constructor: two fresh empty objects and a fresh empty Map.\<close>

definition BaseNode_new :: "heap \<Rightarrow> node_kind \<Rightarrow> heap \<times> addr" where
  "BaseNode_new h k =
     (let (h1, fp) = alloc_obj h (CObj []);
          (h2, np) = alloc_obj h1 (CObj []);
          (h3, m) = alloc_map h2 []
      in alloc_node h3 \<lparr>kind = k, flow_params = VRef fp, node_params = VRef np, successors = m\<rparr>)"

text \<open>\<^verbatim>\<open>setParams(params, node_params?)\<close> stores the references it is given.\<close>

definition setParams :: "heap \<Rightarrow> addr \<Rightarrow> val \<Rightarrow> val \<Rightarrow> heap option" where
  "setParams h this params nparams = (case node_at h this of
       None \<Rightarrow> None
     | Some n \<Rightarrow> Some (set_node h this
         (n\<lparr>flow_params := params,
            node_params := (if truthy nparams then nparams else node_params n)\<rparr>)))"

text \<open>
  \<^verbatim>\<open>addSuccessor(newSuccessor, action = DEFAULT_ACTION)\<close>: throws when the action is
  already a key of the Map, otherwise sets it.
\<close>

definition addSuccessor :: "heap \<Rightarrow> addr \<Rightarrow> addr \<Rightarrow> string \<Rightarrow> (error + heap) option" where
  "addSuccessor h this newSuccessor action = (case node_at h this of
       None \<Rightarrow> None
     | Some n \<Rightarrow> (case map_at h (successors n) of
           None \<Rightarrow> None
         | Some m \<Rightarrow>
             if Map_has m action
             then Some (Inl (Error (''Action '' @ action @ '' already exists'')))
             else Some (Inr (set_map h (successors n) (Map_set m action newSuccessor)))))"

definition addSuccessor_default :: "heap \<Rightarrow> addr \<Rightarrow> addr \<Rightarrow> (error + heap) option" where
  "addSuccessor_default h this newSuccessor = addSuccessor h this newSuccessor DEFAULT_ACTION"

subsection \<open>Deep copies of parameter objects\<close>

text \<open>
  \<^verbatim>\<open>cloneDeep\<close> is the library's recursive copy: a primitive is returned as it is, an
  object or array is copied into a fresh cell whose members are the copies of the original's
  members, in order. The recursion is bounded by the number of objects in the store, which
  is enough for every acyclic value (parameter objects are JSON data); on a cyclic value
  the model gives no answer.
\<close>

fun thread :: "(heap \<Rightarrow> 'a \<Rightarrow> (heap \<times> 'b) option) \<Rightarrow> heap \<Rightarrow> 'a list \<Rightarrow> (heap \<times> 'b list) option" where
  "thread f h [] = Some (h, [])"
| "thread f h (x # xs) = (case f h x of
       None \<Rightarrow> None
     | Some (h1, y) \<Rightarrow> (case thread f h1 xs of
           None \<Rightarrow> None
         | Some (h2, ys) \<Rightarrow> Some (h2, y # ys)))"

primrec cloneDeep_f :: "nat \<Rightarrow> heap \<Rightarrow> val \<Rightarrow> (heap \<times> val) option" where
  "cloneDeep_f 0 h v = (case v of VRef a \<Rightarrow> None | _ \<Rightarrow> Some (h, v))"
| "cloneDeep_f (Suc n) h v = (case v of
       VRef a \<Rightarrow> (case obj_at h a of
           None \<Rightarrow> None
         | Some (CObj fs) \<Rightarrow> (case thread (cloneDeep_f n) h (map snd fs) of
               None \<Rightarrow> None
             | Some (h1, vs) \<Rightarrow>
                 (let (h2, b) = alloc_obj h1 (CObj (zip (map fst fs) vs)) in Some (h2, VRef b)))
         | Some (CArr xs) \<Rightarrow> (case thread (cloneDeep_f n) h xs of
               None \<Rightarrow> None
             | Some (h1, vs) \<Rightarrow>
                 (let (h2, b) = alloc_obj h1 (CArr vs) in Some (h2, VRef b))))
     | _ \<Rightarrow> Some (h, v))"

definition cloneDeep :: "heap \<Rightarrow> val \<Rightarrow> (heap \<times> val) option" where
  "cloneDeep h v = cloneDeep_f (length (objs h)) h v"

subsection \<open>clone and getSuccessor\<close>

text \<open>
  \<^verbatim>\<open>_clone()\<close> constructs a new node of the receiver's class; \<^verbatim>\<open>Flow._clone\<close>
  constructs \<^verbatim>\<open>new Flow(this.start)\<close>, and BatchFlow inherits it.
\<close>

definition clone_kind :: "node_kind \<Rightarrow> node_kind" where
  "clone_kind k = (case k of BatchFlow s \<Rightarrow> Flow s | _ \<Rightarrow> k)"

definition clone :: "heap \<Rightarrow> addr \<Rightarrow> (heap \<times> addr) option" where
  "clone h this = (case node_at h this of
       None \<Rightarrow> None
     | Some n \<Rightarrow>
         (let (h1, newNode) = BaseNode_new h (clone_kind (kind n)) in
          case cloneDeep h1 (flow_params n) of
            None \<Rightarrow> None
          | Some (h2, fp) \<Rightarrow> (case cloneDeep h2 (node_params n) of
                None \<Rightarrow> None
              | Some (h3, np) \<Rightarrow> (case map_at h3 (successors n) of
                    None \<Rightarrow> None
                  | Some m \<Rightarrow>
                      (let (h4, m') = alloc_map h3 m in
                       Some (set_node h4 newNode
                               \<lparr>kind = clone_kind (kind n), flow_params = fp,
                                node_params = np, successors = m'\<rparr>, newNode))))))"

text \<open>\<^verbatim>\<open>getSuccessor(name)\<close>: undefined when the name is no key, else a clone of the target.\<close>

definition getSuccessor :: "heap \<Rightarrow> addr \<Rightarrow> string \<Rightarrow> (heap \<times> addr option) option" where
  "getSuccessor h this name = (case node_at h this of
       None \<Rightarrow> None
     | Some n \<Rightarrow> (case map_at h (successors n) of
           None \<Rightarrow> None
         | Some m \<Rightarrow> (case map_of m name of
               None \<Rightarrow> Some (h, None)
             | Some target \<Rightarrow> (case clone h target of
                   None \<Rightarrow> None
                 | Some (h1, c) \<Rightarrow> Some (h1, Some c)))))"

section \<open>Shared state\<close>

text \<open>
  The shared state is owned by one run and never cloned, so it is passed and returned.
  A message has a role and a content that is absent, a text or a list of parts. The last
  response is undefined, a text, the failure object a process node stores, or the
  role-and-content object a finish node stores for a non-text content. The execution
  tracker under \<^verbatim>\<open>trackingInfo\<close> is \<open>None\<close> when it is not an array.
\<close>

datatype content = ContentNone | ContentText string | ContentParts "val list"

record message =
  role :: string
  content :: content

record error_details =
  ed_message :: string
  ed_name :: "string option"
  ed_stack :: "string option"

datatype response =
    RespText string
  | RespFailure "string option" "error_details option"
  | RespMessage content string

record tracker_entry =
  nodeType :: string
  nodeId :: val
  nodeName :: val
  modelDisplayName :: val
  modelTechnicalName :: val
  allowedTools :: val
  timestamp :: string

record tracking_info =
  nodeExecutionTracker :: "tracker_entry list option"

record shared_state =
  messages :: "message list"
  flowId :: val
  lastResponse :: "response option"
  trackingInfo :: "tracking_info option"
  currentNodeId :: val
  mcpContext_availableTools :: "val list option"
  flowName :: val
  startTime :: int
  top_nodeExecutionTracker :: "tracker_entry list option"

definition content_truthy :: "content \<Rightarrow> bool" where
  "content_truthy c = (case c of ContentNone \<Rightarrow> False | ContentText s \<Rightarrow> s \<noteq> [] | ContentParts ps \<Rightarrow> True)"

text \<open>
  \<^verbatim>\<open>Array.isArray(sharedState.trackingInfo.nodeExecutionTracker)\<close> followed by the push
  of one entry: a TypeError when \<^verbatim>\<open>trackingInfo\<close> is undefined, no change when the tracker
  is not an array.
\<close>

definition push_tracker :: "shared_state \<Rightarrow> tracker_entry \<Rightarrow> error + shared_state" where
  "push_tracker s e = (case trackingInfo s of
       None \<Rightarrow> Inl (TypeError ''Cannot read properties of undefined: nodeExecutionTracker'')
     | Some ti \<Rightarrow> (case nodeExecutionTracker ti of
           None \<Rightarrow> Inr s
         | Some t \<Rightarrow> Inr (s\<lparr>trackingInfo := Some (ti\<lparr>nodeExecutionTracker := Some (t @ [e])\<rparr>)\<rparr>)))"

section \<open>Collaborators and constants that live outside the engine\<close>

text \<open>
  The prompt renderer, the tool handler and the model handler are external collaborators;
  the StartNode and MCPNode classes, the two reserved action tokens of the types module and
  the execution-tracker feature flag are not part of the files at hand. All of them are
  parameters of the model, collected in one record.
\<close>

record provider_error =
  pe_message :: string
  pe_type :: string
  pe_code :: val
  pe_modelId :: val
  pe_details :: "(string \<times> val) list option"

record model_value =
  mv_content :: "string option"
  mv_messages :: "message list option"
  mv_fullResponse :: val
  mv_toolCalls :: val

datatype model_result = ModelFailure provider_error | ModelSuccess model_value

datatype 'a handler_result = HFailure string | HSuccess 'a

record model_request =
  mr_modelId :: val
  mr_prompt :: string
  mr_messages :: "message list"
  mr_tools :: "val list option"
  mr_iteration :: nat
  mr_maxIterations :: nat
  mr_nodeName :: val

type_synonym run_result = "(error \<times> heap \<times> shared_state) + (string \<times> heap \<times> shared_state)"

record env =
  renderPrompt :: "val \<Rightarrow> val \<Rightarrow> val \<Rightarrow> val \<Rightarrow> error + string"
  processMCPNodes :: "heap \<Rightarrow> val \<Rightarrow> error + val list handler_result"
  prepareTools :: "val list \<Rightarrow> val list handler_result"
  callModel :: "model_request \<Rightarrow> error + model_result"
  stack_of :: "error \<Rightarrow> string option"
  now_iso :: string
  now_ms :: int
  later_ms :: int
  STAY_ON_NODE_ACTION :: string
  FINAL_RESPONSE_ACTION :: string
  ENABLE_EXECUTION_TRACKER :: bool
  StartNode_run :: "heap \<Rightarrow> addr \<Rightarrow> shared_state \<Rightarrow> run_result"
  MCPNode_run :: "heap \<Rightarrow> addr \<Rightarrow> shared_state \<Rightarrow> run_result"

section \<open>BaseNode.run\<close>

text \<open>
  \<^verbatim>\<open>run\<close> is the same for every node class: prep, then the exec wrapper, then post, each
  with the node's \<^verbatim>\<open>node_params\<close>. prep and the exec wrapper do not write the shared
  state; post does, and what it has written stays written when it throws. Log statements
  are left out.
\<close>

type_synonym post_result = "(error \<times> shared_state) + (string \<times> shared_state)"

definition execWrapper :: "('p \<Rightarrow> val \<Rightarrow> error + 'e) \<Rightarrow> 'p \<Rightarrow> val \<Rightarrow> error + 'e" where
  "execWrapper execCore prepResult nparams = execCore prepResult nparams"

definition BaseNode_run ::
  "(shared_state \<Rightarrow> val \<Rightarrow> error + 'p) \<Rightarrow> ('p \<Rightarrow> val \<Rightarrow> error + 'e) \<Rightarrow>
   ('p \<Rightarrow> 'e \<Rightarrow> shared_state \<Rightarrow> val \<Rightarrow> post_result) \<Rightarrow> shared_state \<Rightarrow> val \<Rightarrow> post_result" where
  "BaseNode_run prep execCore post sharedState nparams = (case prep sharedState nparams of
       Inl e \<Rightarrow> Inl (e, sharedState)
     | Inr prepResult \<Rightarrow> (case execWrapper execCore prepResult nparams of
           Inl e \<Rightarrow> Inl (e, sharedState)
         | Inr execResult \<Rightarrow> post prepResult execResult sharedState nparams))"

text \<open>The keys of the receiver's successor Map, in insertion order.\<close>

definition successor_keys :: "heap \<Rightarrow> addr \<Rightarrow> string list" where
  "successor_keys h this = (case node_at h this of
       None \<Rightarrow> []
     | Some n \<Rightarrow> (case map_at h (successors n) of None \<Rightarrow> [] | Some m \<Rightarrow> Map_keys m))"

section \<open>ProcessNode\<close>

record process_prep_result =
  pr_nodeId :: val
  pr_nodeType :: string
  pr_currentPrompt :: string
  pr_boundModel :: val
  pr_availableTools :: "val list"
  pr_messages :: "message list"
  pr_modelDisplayName :: val

record process_exec_result =
  er_success :: bool
  er_content :: "string option"
  er_messages :: "message list option"
  er_fullResponse :: val
  er_toolCalls :: val
  er_error :: "string option"
  er_errorDetails :: "error_details option"

definition js_or :: "val \<Rightarrow> val \<Rightarrow> val" where
  "js_or a b = (if truthy a then a else b)"

text \<open>\<^verbatim>\<open>v.length > 0\<close> for an array, a string, or an object with a numeric length.\<close>

definition length_gt0 :: "heap \<Rightarrow> val \<Rightarrow> bool" where
  "length_gt0 h v = (case v of
       VStr s \<Rightarrow> s \<noteq> []
     | VRef a \<Rightarrow> (case obj_at h a of
           Some (CArr xs) \<Rightarrow> xs \<noteq> []
         | Some (CObj fs) \<Rightarrow> (case map_of fs ''length'' of Some (VNum n) \<Rightarrow> 0 < n | _ \<Rightarrow> False)
         | None \<Rightarrow> False)
     | _ \<Rightarrow> False)"

definition resolve_tools :: "env \<Rightarrow> heap \<Rightarrow> shared_state \<Rightarrow> val \<Rightarrow> error + val list" where
  "resolve_tools env h sharedState properties =
     (case mcpContext_availableTools sharedState of
        Some (t # ts) \<Rightarrow> Inr (t # ts)
      | _ \<Rightarrow>
         (let mcpNodes = get_prop h properties ''mcpNodes'' in
          if truthy mcpNodes \<and> length_gt0 h mcpNodes
          then (case processMCPNodes env h mcpNodes of
                  Inl e \<Rightarrow> Inl e
                | Inr (HFailure msg) \<Rightarrow> Inl (Error (''Failed to process MCP nodes: '' @ msg))
                | Inr (HSuccess tools) \<Rightarrow> Inr tools)
          else Inr []))"

definition ProcessNode_prep :: "env \<Rightarrow> heap \<Rightarrow> shared_state \<Rightarrow> val \<Rightarrow> error + process_prep_result" where
  "ProcessNode_prep env h sharedState nparams =
     (let nodeId = get_prop h nparams ''id'';
          fid = flowId sharedState;
          properties = get_prop h nparams ''properties'';
          boundModel = get_prop h properties ''boundModel'';
          excludeModelPrompt = js_or (get_prop h properties ''excludeModelPrompt'') (VBool False);
          excludeStartNodePrompt = js_or (get_prop h properties ''excludeStartNodePrompt'') (VBool False)
      in if \<not> truthy nodeId \<or> \<not> truthy fid
         then Inl (Error ''Process node requires node ID and flow ID'')
         else if \<not> truthy boundModel
         then Inl (Error ''Process node requires a bound model'')
         else (case renderPrompt env fid nodeId excludeModelPrompt excludeStartNodePrompt of
                 Inl e \<Rightarrow> Inl e
               | Inr completePrompt \<Rightarrow> (case resolve_tools env h sharedState properties of
                     Inl e \<Rightarrow> Inl e
                   | Inr availableTools \<Rightarrow>
                       (let nonSystemMessages = filter (\<lambda>msg. role msg \<noteq> ''system'') (messages sharedState);
                            systemMessage = \<lparr>role = ''system'', content = ContentText completePrompt\<rparr>
                        in Inr \<lparr>pr_nodeId = nodeId, pr_nodeType = ''process'',
                                pr_currentPrompt = completePrompt, pr_boundModel = boundModel,
                                pr_availableTools = availableTools,
                                pr_messages = systemMessage # nonSystemMessages,
                                pr_modelDisplayName = VUndef\<rparr>))))"

subsection \<open>execCore\<close>

text \<open>
  A JavaScript object literal with spreads, as the details object of the thrown error is
  built: setting a key that is present replaces its value in place, a new key is appended.
\<close>

definition obj_spread :: "(string \<times> val) list \<Rightarrow> (string \<times> val) list \<Rightarrow> (string \<times> val) list" where
  "obj_spread obj extra = fold (\<lambda>(k, v) acc. Map_set acc k v) extra obj"

definition err_message :: "error \<Rightarrow> string" where
  "err_message e = (case e of Error m \<Rightarrow> m | ModelError m d \<Rightarrow> m | CriticalToolError m \<Rightarrow> m | TypeError m \<Rightarrow> m)"

definition err_name :: "error \<Rightarrow> string" where
  "err_name e = (case e of TypeError m \<Rightarrow> ''TypeError'' | _ \<Rightarrow> ''Error'')"

definition is_abort_error :: "error \<Rightarrow> bool" where
  "is_abort_error e = (case e of ModelError m d \<Rightarrow> True | CriticalToolError m \<Rightarrow> True | _ \<Rightarrow> False)"

definition model_error_of :: "provider_error \<Rightarrow> error" where
  "model_error_of pe =
     (let d = (case pe_details pe of None \<Rightarrow> [] | Some ds \<Rightarrow> ds);
          param = (case map_of d ''param'' of Some (VStr p) \<Rightarrow> VStr p | _ \<Rightarrow> VUndef);
          status = (case map_of d ''status'' of Some (VNum n) \<Rightarrow> VNum n | _ \<Rightarrow> VUndef);
          base = [(''message'', VStr (pe_message pe)), (''type'', VStr (pe_type pe)), (''code'', pe_code pe)];
          withModel = obj_spread base (if pe_type pe = ''model'' then [(''modelId'', pe_modelId pe)] else []);
          withParam = obj_spread withModel [(''param'', param), (''status'', status)]
      in ModelError (''Model execution failed: '' @ pe_message pe) (obj_spread withParam d))"

text \<open>The tool descriptors for the provider, when the node has tools.\<close>

definition prepared_tools :: "env \<Rightarrow> process_prep_result \<Rightarrow> error + val list option" where
  "prepared_tools env prepResult =
     (if pr_availableTools prepResult \<noteq> []
      then (case prepareTools env (pr_availableTools prepResult) of
              HFailure msg \<Rightarrow> Inl (Error (''Failed to prepare tools: '' @ msg))
            | HSuccess ts \<Rightarrow> Inr (Some ts))
      else Inr None)"

text \<open>The argument of \<^verbatim>\<open>ModelHandler.callModel\<close>.\<close>

definition model_request_of :: "heap \<Rightarrow> process_prep_result \<Rightarrow> val \<Rightarrow> val list option \<Rightarrow> model_request" where
  "model_request_of h prepResult nparams tools =
     \<lparr>mr_modelId = pr_boundModel prepResult,
      mr_prompt = pr_currentPrompt prepResult,
      mr_messages = pr_messages prepResult,
      mr_tools = tools, mr_iteration = 1, mr_maxIterations = 30,
      mr_nodeName = js_or (get_prop h nparams ''label'')
         (js_or (get_prop h (get_prop h nparams ''properties'') ''name'') (VStr ''Process Node''))\<rparr>"

text \<open>The body of the \<^verbatim>\<open>try\<close> block.\<close>

definition ProcessNode_execCore_try ::
  "env \<Rightarrow> heap \<Rightarrow> process_prep_result \<Rightarrow> val \<Rightarrow> error + process_exec_result" where
  "ProcessNode_execCore_try env h prepResult nparams =
     (case prepared_tools env prepResult of
        Inl e \<Rightarrow> Inl e
      | Inr tools \<Rightarrow>
         (case callModel env (model_request_of h prepResult nparams tools) of
            Inl e \<Rightarrow> Inl e
          | Inr (ModelFailure pe) \<Rightarrow> Inl (model_error_of pe)
          | Inr (ModelSuccess result) \<Rightarrow>
              Inr \<lparr>er_success = True,
                   er_content = Some (case mv_content result of None \<Rightarrow> [] | Some c \<Rightarrow> c),
                   er_messages = mv_messages result,
                   er_fullResponse = mv_fullResponse result,
                   er_toolCalls = mv_toolCalls result,
                   er_error = None, er_errorDetails = None\<rparr>))"

text \<open>
  The \<^verbatim>\<open>catch\<close> block: an error tagged as model error or critical tool error is thrown
  again, any other becomes a failure result.
\<close>

definition ProcessNode_execCore ::
  "env \<Rightarrow> heap \<Rightarrow> process_prep_result \<Rightarrow> val \<Rightarrow> error + process_exec_result" where
  "ProcessNode_execCore env h prepResult nparams =
     (case ProcessNode_execCore_try env h prepResult nparams of
        Inr r \<Rightarrow> Inr r
      | Inl e \<Rightarrow>
          if is_abort_error e then Inl e
          else Inr \<lparr>er_success = False, er_content = None, er_messages = None,
                    er_fullResponse = VUndef, er_toolCalls = VUndef,
                    er_error = Some (err_message e),
                    er_errorDetails = Some \<lparr>ed_message = err_message e, ed_name = Some (err_name e),
                                             ed_stack = stack_of env e\<rparr>\<rparr>)"

subsection \<open>post\<close>

definition js_to_string :: "val \<Rightarrow> string" where
  "js_to_string v = (case v of
       VUndef \<Rightarrow> ''undefined'' | VNull \<Rightarrow> ''null''
     | VBool b \<Rightarrow> (if b then ''true'' else ''false'')
     | VNum n \<Rightarrow> (if n < 0 then ''-'' @ string_of_nat (nat (- n)) else string_of_nat (nat n))
     | VStr s \<Rightarrow> s
     | VRef a \<Rightarrow> ''[object Object]'')"

fun intercalate :: "string \<Rightarrow> string list \<Rightarrow> string" where
  "intercalate sep [] = []"
| "intercalate sep [x] = x"
| "intercalate sep (x # y # ys) = x @ sep @ intercalate sep (y # ys)"

text \<open>
  \<^verbatim>\<open>v?.join(sep)\<close>: undefined on undefined and null, the joined elements on an array
  (undefined and null elements give the empty string), a TypeError on anything else.
\<close>

definition js_join :: "heap \<Rightarrow> val \<Rightarrow> string \<Rightarrow> error + val" where
  "js_join h v sep = (case v of
       VUndef \<Rightarrow> Inr VUndef
     | VNull \<Rightarrow> Inr VUndef
     | VRef a \<Rightarrow> (case obj_at h a of
           Some (CArr xs) \<Rightarrow> Inr (VStr (intercalate sep
               (map (\<lambda>x. if x = VUndef \<or> x = VNull then [] else js_to_string x) xs)))
         | _ \<Rightarrow> Inl (TypeError ''join is not a function''))
     | _ \<Rightarrow> Inl (TypeError ''join is not a function''))"

text \<open>
  The edge filter of \<^verbatim>\<open>ProcessNode.post\<close>:
  \<^verbatim>\<open>!action.includes('-mcpEdge') && !action.endsWith('mcpEdge') && !action.includes('-mcp')\<close>.
\<close>

fun js_includes :: "string \<Rightarrow> string \<Rightarrow> bool" where
  "js_includes [] sub = (sub = [])"
| "js_includes (c # s) sub = (prefix sub (c # s) \<or> js_includes s sub)"

definition js_endsWith :: "string \<Rightarrow> string \<Rightarrow> bool" where
  "js_endsWith s suf = prefix (rev suf) (rev s)"

definition standard_edge :: "string \<Rightarrow> bool" where
  "standard_edge action = (\<not> js_includes action ''-mcpEdge'' \<and> \<not> js_endsWith action ''mcpEdge''
     \<and> \<not> js_includes action ''-mcp'')"

definition ProcessNode_next_action :: "string list \<Rightarrow> string" where
  "ProcessNode_next_action allActions = (case filter standard_edge allActions of
       action # rest \<Rightarrow> action
     | [] \<Rightarrow> ''default'')"

definition ProcessNode_post ::
  "env \<Rightarrow> heap \<Rightarrow> addr \<Rightarrow> process_prep_result \<Rightarrow> process_exec_result \<Rightarrow> shared_state \<Rightarrow> val \<Rightarrow> post_result" where
  "ProcessNode_post env h this prepResult execResult sharedState nparams =
     (let s1 = (if \<not> er_success execResult
                then sharedState\<lparr>lastResponse :=
                       Some (RespFailure (er_error execResult) (er_errorDetails execResult))\<rparr>
                else (case er_content execResult of
                        Some (c # cs) \<Rightarrow> sharedState\<lparr>lastResponse := Some (RespText (c # cs))\<rparr>
                      | _ \<Rightarrow> sharedState));
          s2 = (case er_messages execResult of
                  Some (m # ms) \<Rightarrow> s1\<lparr>messages := m # ms\<rparr>
                | _ \<Rightarrow> s1);
          properties = get_prop h nparams ''properties''
      in case trackingInfo s2 of
           None \<Rightarrow> Inl (TypeError ''Cannot read properties of undefined: nodeExecutionTracker'', s2)
         | Some ti \<Rightarrow>
            (case (case nodeExecutionTracker ti of
                     None \<Rightarrow> Inr s2
                   | Some t \<Rightarrow> (case js_join h (get_prop h properties ''allowedTools'') '', '' of
                         Inl e \<Rightarrow> Inl e
                       | Inr joined \<Rightarrow> push_tracker s2
                           \<lparr>nodeType = ''ProcessNode'',
                            nodeId = js_or (get_prop h nparams ''id'') (VStr ''unknown''),
                            nodeName = js_or (get_prop h properties ''name'') (VStr ''Process Node''),
                            modelDisplayName = js_or (pr_modelDisplayName prepResult) (VStr ''Unknown Model''),
                            modelTechnicalName = js_or (pr_boundModel prepResult) (VStr ''unknown''),
                            allowedTools = joined,
                            timestamp = now_iso env\<rparr>)) of
               Inl e \<Rightarrow> Inl (e, s2)
             | Inr s3 \<Rightarrow> Inr (ProcessNode_next_action (successor_keys h this), s3)))"

definition ProcessNode_run :: "env \<Rightarrow> heap \<Rightarrow> addr \<Rightarrow> shared_state \<Rightarrow> val \<Rightarrow> post_result" where
  "ProcessNode_run env h this sharedState nparams =
     BaseNode_run (ProcessNode_prep env h) (ProcessNode_execCore env h)
       (ProcessNode_post env h this) sharedState nparams"

section \<open>FinishNode\<close>

record finish_prep_result =
  fr_nodeId :: val
  fr_nodeType :: string
  fr_messages :: "message list"

record finish_exec_result =
  fe_success :: bool

definition FinishNode_prep :: "heap \<Rightarrow> shared_state \<Rightarrow> val \<Rightarrow> error + finish_prep_result" where
  "FinishNode_prep h sharedState nparams =
     Inr \<lparr>fr_nodeId = js_or (get_prop h nparams ''id'') (VStr []), fr_nodeType = ''finish'',
          fr_messages = messages sharedState\<rparr>"

definition FinishNode_execCore :: "finish_prep_result \<Rightarrow> val \<Rightarrow> error + finish_exec_result" where
  "FinishNode_execCore prepResult nparams = Inr \<lparr>fe_success = True\<rparr>"

definition FinishNode_post ::
  "env \<Rightarrow> heap \<Rightarrow> addr \<Rightarrow> finish_prep_result \<Rightarrow> finish_exec_result \<Rightarrow> shared_state \<Rightarrow> val \<Rightarrow> post_result" where
  "FinishNode_post env h this prepResult execResult sharedState nparams =
     (case (if ENABLE_EXECUTION_TRACKER env
            then push_tracker sharedState
                   \<lparr>nodeType = ''FinishNode'',
                    nodeId = js_or (get_prop h nparams ''id'') (VStr ''unknown''),
                    nodeName = js_or (get_prop h (get_prop h nparams ''properties'') ''name'')
                                 (VStr ''Finish Node''),
                    modelDisplayName = VUndef, modelTechnicalName = VUndef, allowedTools = VUndef,
                    timestamp = now_iso env\<rparr>
            else Inr sharedState) of
        Inl e \<Rightarrow> Inl (e, sharedState)
      | Inr s1 \<Rightarrow>
         (let s2 = (case fr_messages prepResult of
                      [] \<Rightarrow> s1
                    | m # ms \<Rightarrow>
                       (let lastMessage = last (m # ms) in
                        if role lastMessage = ''assistant'' \<and> content_truthy (content lastMessage)
                        then (case content lastMessage of
                                ContentText t \<Rightarrow> s1\<lparr>lastResponse := Some (RespText t)\<rparr>
                              | c \<Rightarrow> s1\<lparr>lastResponse := Some (RespMessage c (role lastMessage))\<rparr>)
                        else s1))
          in case successor_keys h this of
               action # rest \<Rightarrow> Inr (action, s2)
             | [] \<Rightarrow> Inr (FINAL_RESPONSE_ACTION env, s2)))"

definition FinishNode_run :: "env \<Rightarrow> heap \<Rightarrow> addr \<Rightarrow> shared_state \<Rightarrow> val \<Rightarrow> post_result" where
  "FinishNode_run env h this sharedState nparams =
     BaseNode_run (FinishNode_prep h) FinishNode_execCore (FinishNode_post env h this) sharedState nparams"

section \<open>Flow: orchestration\<close>

text \<open>
  \<^verbatim>\<open>Flow.execCore\<close> throws whatever it is given; \<^verbatim>\<open>Flow.post\<close> returns
  \<^verbatim>\<open>DEFAULT_ACTION\<close> and leaves the shared state alone.
\<close>

definition Flow_execCore :: "'p \<Rightarrow> val \<Rightarrow> error + 'e" where
  "Flow_execCore prepResult nparams = Inl (Error ''Flow node does not support direct execution'')"

definition Flow_post :: "'p \<Rightarrow> 'e \<Rightarrow> shared_state \<Rightarrow> val \<Rightarrow> post_result" where
  "Flow_post prepResult execResult sharedState nparams = Inr (DEFAULT_ACTION, sharedState)"

definition getStartNode :: "heap \<Rightarrow> addr \<Rightarrow> (heap \<times> addr) option" where
  "getStartNode h this = (case node_at h this of
       None \<Rightarrow> None
     | Some n \<Rightarrow> (case kind n of
           Flow start \<Rightarrow> clone h start
         | BatchFlow start \<Rightarrow> clone h start
         | _ \<Rightarrow> None))"

subsection \<open>Finding the node to resume at\<close>

text \<open>
  The search reads \<^verbatim>\<open>node.node_params?.id\<close> of the nodes themselves: the cloned start node
  first, then the successors as they stand in the Maps, which are the templates. A
  successor is queued when its id is truthy and not yet in the visited set.
\<close>

definition node_id :: "heap \<Rightarrow> addr \<Rightarrow> val" where
  "node_id h a = (case node_at h a of None \<Rightarrow> VUndef | Some n \<Rightarrow> get_prop h (node_params n) ''id'')"

definition successor_values :: "heap \<Rightarrow> addr \<Rightarrow> addr list" where
  "successor_values h a = (case node_at h a of
       None \<Rightarrow> []
     | Some n \<Rightarrow> (case map_at h (successors n) of None \<Rightarrow> [] | Some m \<Rightarrow> Map_values m))"

fun enqueue :: "heap \<Rightarrow> addr \<Rightarrow> addr list \<times> val list \<Rightarrow> addr list \<times> val list" where
  "enqueue h successor (queue, visited) =
     (let successorId = node_id h successor in
      if truthy successorId \<and> successorId \<notin> set visited
      then (queue @ [successor], visited @ [successorId])
      else (queue, visited))"

definition known_ids :: "heap \<Rightarrow> val set" where
  "known_ids h = node_id h ` {..<length (nodes h)}"

lemma enqueue_measure:
  "enqueue h a (q, v) = (q', v') \<Longrightarrow>
     length q' + card (known_ids h - set v') = length q + card (known_ids h - set v)"
proof -
  assume e: "enqueue h a (q, v) = (q', v')"
  show ?thesis
  proof (cases "truthy (node_id h a) \<and> node_id h a \<notin> set v")
    case False
    with e show ?thesis by (auto simp: Let_def)
  next
    case True
    then have valid: "a < length (nodes h)"
      by (auto simp: node_id_def node_at_def truthy_def split: if_splits)
    then have mem: "node_id h a \<in> known_ids h - set v"
      using True by (auto simp: known_ids_def)
    have fin: "finite (known_ids h - set v)" by (simp add: known_ids_def)
    from e True have q': "q' = q @ [a]" and v': "v' = v @ [node_id h a]"
      by (auto simp: Let_def)
    have "known_ids h - set v' = (known_ids h - set v) - {node_id h a}"
      using v' by auto
    then have "card (known_ids h - set v') = card (known_ids h - set v) - 1"
      using mem fin by simp
    moreover have "0 < card (known_ids h - set v)"
      using mem fin by (auto simp: card_gt_0_iff)
    ultimately show ?thesis using q' by simp
  qed
qed

lemma fold_enqueue_measure:
  "fold (enqueue h) xs (q, v) = (q', v') \<Longrightarrow>
     length q' + card (known_ids h - set v') = length q + card (known_ids h - set v)"
proof (induction xs arbitrary: q v)
  case Nil
  then show ?case by simp
next
  case (Cons x xs)
  obtain q1 v1 where s: "enqueue h x (q, v) = (q1, v1)" by (cases "enqueue h x (q, v)")
  with Cons.prems have "fold (enqueue h) xs (q1, v1) = (q', v')" by simp
  from Cons.IH[OF this] enqueue_measure[OF s] show ?case by simp
qed

function bfs :: "heap \<Rightarrow> val \<Rightarrow> addr list \<Rightarrow> val list \<Rightarrow> addr option" where
  "bfs h target [] visited = None"
| "bfs h target (node # queue) visited =
     (if node_id h node = target then Some node
      else (case fold (enqueue h) (successor_values h node) (queue, visited) of
              (queue', visited') \<Rightarrow> bfs h target queue' visited'))"
  by pat_completeness auto
termination
proof (relation "measure (\<lambda>(h, target, queue, visited). length queue + card (known_ids h - set visited))")
  fix h target node queue visited x y
  assume "(x, y) = fold (enqueue h) (successor_values h node) (queue, visited)"
  then have "fold (enqueue h) (successor_values h node) (queue, visited) = (x, y)"
    by simp
  from fold_enqueue_measure[OF this]
  show "((h, target, x, y), (h, target, node # queue, visited))
        \<in> measure (\<lambda>(h, target, queue, visited). length queue + card (known_ids h - set visited))"
    by simp
qed simp

definition resume_entry :: "heap \<Rightarrow> addr \<Rightarrow> shared_state \<Rightarrow> (heap \<times> addr) option" where
  "resume_entry h this sharedState =
     (if truthy (currentNodeId sharedState)
      then (case getStartNode h this of
              None \<Rightarrow> None
            | Some (h1, startNode) \<Rightarrow> (case bfs h1 (currentNodeId sharedState) [startNode] [] of
                  Some currentNode \<Rightarrow> Some (h1, currentNode)
                | None \<Rightarrow> getStartNode h1 this))
      else getStartNode h this)"

subsection \<open>The loop\<close>

text \<open>
  \<^verbatim>\<open>nodeParams && nodeParams[currentNode.flow_params.id] ? ... : (flowParams ? flowParams : this.flow_params)\<close>
  and the second argument of \<^verbatim>\<open>setParams\<close>. The id is read only when
  \<^verbatim>\<open>nodeParams\<close> is truthy.
\<close>

definition effective_params :: "heap \<Rightarrow> val \<Rightarrow> val \<Rightarrow> val \<Rightarrow> val \<Rightarrow> error + val \<times> val" where
  "effective_params h this_flow_params flowParams nodeParams current_flow_params =
     (let general = (if truthy flowParams then flowParams else this_flow_params) in
      if truthy nodeParams
      then (case get_prop_strict h current_flow_params ''id'' of
              Inl e \<Rightarrow> Inl e
            | Inr fid \<Rightarrow>
               (let own = get_prop h nodeParams (js_to_string fid) in
                Inr (if truthy own then own else general, own)))
      else Inr (general, VUndef))"

type_synonym outcome = "(error \<times> heap \<times> shared_state) + (heap \<times> shared_state)"

type_synonym looper =
  "env \<Rightarrow> heap \<Rightarrow> addr \<Rightarrow> val \<Rightarrow> val \<Rightarrow> addr \<Rightarrow> shared_state \<Rightarrow> outcome option"

definition with_heap :: "heap \<Rightarrow> post_result \<Rightarrow> run_result" where
  "with_heap h r = (case r of Inl (e, s) \<Rightarrow> Inl (e, h, s) | Inr (action, s) \<Rightarrow> Inr (action, h, s))"

text \<open>
  \<^verbatim>\<open>orchestrate\<close> from its entry: find the node to begin at, then loop. The loop is the
  parameter \<open>rec\<close>, so that a Flow met as a node can run its own orchestration.
\<close>

definition orchestrate_with :: "looper \<Rightarrow> env \<Rightarrow> heap \<Rightarrow> addr \<Rightarrow> shared_state \<Rightarrow> val \<Rightarrow> val \<Rightarrow> outcome option" where
  "orchestrate_with rec env h this sharedState flowParams nodeParams =
     (case resume_entry h this sharedState of
        None \<Rightarrow> None
      | Some (h1, currentNode) \<Rightarrow> rec env h1 this flowParams nodeParams currentNode sharedState)"

text \<open>
  \<^verbatim>\<open>Flow.run\<close>: prep, orchestrate with the flow's own parameters and their
  \<^verbatim>\<open>nodeParams\<close> table, post. Nothing is caught.
\<close>

definition Flow_run :: "looper \<Rightarrow> env \<Rightarrow> heap \<Rightarrow> addr \<Rightarrow> shared_state \<Rightarrow> run_result option" where
  "Flow_run rec env h this sharedState = (case node_at h this of
       None \<Rightarrow> None
     | Some n \<Rightarrow> (case get_prop_strict h (flow_params n) ''nodeParams'' of
           Inl e \<Rightarrow> Some (Inl (e, h, sharedState))
         | Inr nodeParams \<Rightarrow>
            (case orchestrate_with rec env h this sharedState (flow_params n) nodeParams of
               None \<Rightarrow> None
             | Some (Inl err) \<Rightarrow> Some (Inl err)
             | Some (Inr (h1, s1)) \<Rightarrow>
                 Some (with_heap h1 (Flow_post () () s1 VUndef)))))"

text \<open>\<^verbatim>\<open>BatchFlow.run\<close>: its prep returns the empty list, so nothing is orchestrated.\<close>

definition BatchFlow_run :: "heap \<Rightarrow> addr \<Rightarrow> shared_state \<Rightarrow> run_result" where
  "BatchFlow_run h this sharedState = Inr (DEFAULT_ACTION, h, sharedState)"

definition node_run :: "looper \<Rightarrow> env \<Rightarrow> heap \<Rightarrow> addr \<Rightarrow> shared_state \<Rightarrow> run_result option" where
  "node_run rec env h this sharedState = (case node_at h this of
       None \<Rightarrow> None
     | Some n \<Rightarrow> (case kind n of
           StartNode \<Rightarrow> Some (StartNode_run env h this sharedState)
         | ProcessNode \<Rightarrow> Some (with_heap h (ProcessNode_run env h this sharedState (node_params n)))
         | MCPNode \<Rightarrow> Some (MCPNode_run env h this sharedState)
         | FinishNode \<Rightarrow> Some (with_heap h (FinishNode_run env h this sharedState (node_params n)))
         | Flow start \<Rightarrow> Flow_run rec env h this sharedState
         | BatchFlow start \<Rightarrow> Some (BatchFlow_run h this sharedState)))"

text \<open>
  One pass through the body of the \<^verbatim>\<open>while (currentNode)\<close> loop: set the parameters of
  the current node, run it, and either finish (an error, a suspension, no successor) or
  name the cloned successor to go on with.
\<close>

datatype visit = Done outcome | Next heap addr shared_state

definition orch_visit :: "looper \<Rightarrow> env \<Rightarrow> heap \<Rightarrow> addr \<Rightarrow> val \<Rightarrow> val \<Rightarrow> addr \<Rightarrow> shared_state \<Rightarrow> visit option" where
  "orch_visit rec env h this flowParams nodeParams currentNode sharedState =
     (case node_at h this of
        None \<Rightarrow> None
      | Some flow \<Rightarrow> (case node_at h currentNode of
          None \<Rightarrow> None
        | Some c \<Rightarrow> (case effective_params h (flow_params flow) flowParams nodeParams (flow_params c) of
            Inl e \<Rightarrow> Some (Done (Inl (e, h, sharedState)))
          | Inr (paramsToSet, own) \<Rightarrow> (case setParams h currentNode paramsToSet own of
              None \<Rightarrow> None
            | Some h1 \<Rightarrow> (case node_run rec env h1 currentNode sharedState of
                None \<Rightarrow> None
              | Some (Inl err) \<Rightarrow> Some (Done (Inl err))
              | Some (Inr (action, h2, s2)) \<Rightarrow>
                  if action = STAY_ON_NODE_ACTION env
                  then Some (Done (Inr (h2, s2\<lparr>currentNodeId := node_id h2 currentNode\<rparr>)))
                  else (case getSuccessor h2 currentNode action of
                          None \<Rightarrow> None
                        | Some (h3, None) \<Rightarrow> Some (Done (Inr (h3, s2\<lparr>currentNodeId := VUndef\<rparr>)))
                        | Some (h3, Some next) \<Rightarrow> Some (Next h3 next s2)))))))"

definition orch_step :: "looper \<Rightarrow> looper" where
  "orch_step rec env h this flowParams nodeParams currentNode sharedState =
     (case orch_visit rec env h this flowParams nodeParams currentNode sharedState of
        None \<Rightarrow> None
      | Some (Done r) \<Rightarrow> Some r
      | Some (Next h3 next s2) \<Rightarrow> rec env h3 this flowParams nodeParams next s2)"

text \<open>
  The loop may go round for ever (graphs have cycles), so it runs on a budget of passes:
  \<open>None\<close> when the budget is used up.
\<close>

primrec orch_loop :: "nat \<Rightarrow> looper" where
  "orch_loop 0 = (\<lambda>env h this flowParams nodeParams currentNode sharedState. None)"
| "orch_loop (Suc n) = orch_step (orch_loop n)"

definition orchestrate :: "nat \<Rightarrow> env \<Rightarrow> heap \<Rightarrow> addr \<Rightarrow> shared_state \<Rightarrow> val \<Rightarrow> val \<Rightarrow> outcome option" where
  "orchestrate n env h this sharedState flowParams nodeParams =
     orchestrate_with (orch_loop n) env h this sharedState flowParams nodeParams"

definition Flow_run_top :: "nat \<Rightarrow> env \<Rightarrow> heap \<Rightarrow> addr \<Rightarrow> shared_state \<Rightarrow> run_result option" where
  "Flow_run_top n env h this sharedState = Flow_run (orch_loop n) env h this sharedState"

section \<open>FlowConverter\<close>

text \<open>
  The stored graph description: nodes with id, type, label and properties, edges with id,
  source and target. The properties of a node are an object of the store (the converter
  puts the reference it is given into the node's parameters).
\<close>

record flow_node =
  fn_id :: string
  fn_type :: string
  fn_label :: val
  fn_properties :: val

record edge =
  e_id :: string
  e_source :: string
  e_target :: string

record react_flow =
  rf_id :: string
  rf_name :: string
  rf_nodes :: "flow_node list"
  rf_edges :: "edge list"

definition createNode :: "heap \<Rightarrow> flow_node \<Rightarrow> (error + heap \<times> addr) option" where
  "createNode h node =
     (case (if fn_type node = ''start'' then Some StartNode
            else if fn_type node = ''process'' then Some ProcessNode
            else if fn_type node = ''mcp'' then Some MCPNode
            else if fn_type node = ''finish'' then Some FinishNode
            else None) of
        None \<Rightarrow> Some (Inl (Error (''Unknown node type: '' @ fn_type node)))
      | Some k \<Rightarrow>
         (let (h1, pocketNode) = BaseNode_new h k;
              (h2, properties) = (if truthy (fn_properties node) then (h1, fn_properties node)
                                  else (let (h', a) = alloc_obj h1 (CObj []) in (h', VRef a)));
              (h3, params) = alloc_obj h2 (CObj [(''id'', VStr (fn_id node)), (''label'', fn_label node),
                                                 (''type'', VStr (fn_type node)), (''properties'', properties)])
          in case setParams h3 pocketNode (VRef params) VUndef of
               None \<Rightarrow> None
             | Some h4 \<Rightarrow> Some (Inr (h4, pocketNode))))"

text \<open>First pass: one node per descriptor, kept in a Map from id to node.\<close>

fun create_nodes ::
  "heap \<Rightarrow> (string \<times> addr) list \<Rightarrow> flow_node list \<Rightarrow> (error + heap \<times> (string \<times> addr) list) option" where
  "create_nodes h nodesMap [] = Some (Inr (h, nodesMap))"
| "create_nodes h nodesMap (node # rest) = (case createNode h node of
       None \<Rightarrow> None
     | Some (Inl e) \<Rightarrow> Some (Inl e)
     | Some (Inr (h1, pocketNode)) \<Rightarrow> create_nodes h1 (Map_set nodesMap (fn_id node) pocketNode) rest)"

text \<open>
  Second pass: an edge whose source and target both exist is registered at the source
  under \<^verbatim>\<open>edge.id || 'default'\<close>; any other edge is skipped.
\<close>

fun connect_edges :: "heap \<Rightarrow> (string \<times> addr) list \<Rightarrow> edge list \<Rightarrow> (error + heap) option" where
  "connect_edges h nodesMap [] = Some (Inr h)"
| "connect_edges h nodesMap (e # rest) =
     (case (map_of nodesMap (e_source e), map_of nodesMap (e_target e)) of
        (Some sourceNode, Some targetNode) \<Rightarrow>
          (case addSuccessor h sourceNode targetNode (if e_id e = [] then ''default'' else e_id e) of
             None \<Rightarrow> None
           | Some (Inl err) \<Rightarrow> Some (Inl err)
           | Some (Inr h1) \<Rightarrow> connect_edges h1 nodesMap rest)
      | _ \<Rightarrow> connect_edges h nodesMap rest)"

definition node_flow_params :: "heap \<Rightarrow> addr \<Rightarrow> val" where
  "node_flow_params h a = (case node_at h a of None \<Rightarrow> VUndef | Some n \<Rightarrow> flow_params n)"

definition convert :: "heap \<Rightarrow> react_flow \<Rightarrow> (error + heap \<times> addr) option" where
  "convert h reactFlow = (case create_nodes h [] (rf_nodes reactFlow) of
       None \<Rightarrow> None
     | Some (Inl e) \<Rightarrow> Some (Inl e)
     | Some (Inr (h1, nodesMap)) \<Rightarrow> (case connect_edges h1 nodesMap (rf_edges reactFlow) of
           None \<Rightarrow> None
         | Some (Inl e) \<Rightarrow> Some (Inl e)
         | Some (Inr h2) \<Rightarrow> (case find (\<lambda>node. fn_type node = ''start'') (rf_nodes reactFlow) of
               None \<Rightarrow> Some (Inl (Error ''Flow must have a start node''))
             | Some startNode \<Rightarrow> (case map_of nodesMap (fn_id startNode) of
                   None \<Rightarrow> Some (Inl (Error ''Failed to create start node''))
                 | Some pocketStartNode \<Rightarrow>
                    (let (h3, flow) = BaseNode_new h2 (Flow pocketStartNode);
                         (h4, nodeParams) = alloc_obj h3
                            (CObj (fold (\<lambda>(nodeId, node) acc. Map_set acc nodeId (node_flow_params h3 node))
                                     nodesMap []));
                         (h5, params) = alloc_obj h4 (CObj [(''nodeParams'', VRef nodeParams)])
                     in (case setParams h5 flow (VRef params) VUndef of
                           None \<Rightarrow> None
                         | Some h6 \<Rightarrow> Some (Inr (h6, flow))))))))"

section \<open>FlowExecutor\<close>

record flow_result =
  result :: response
  result_messages :: "message list"
  executionTime :: int
  result_nodeExecutionTracker :: "tracker_entry list"

text \<open>\<^verbatim>\<open>lastResponse || fallback\<close>: undefined and the empty text are falsy.\<close>

definition response_or :: "response option \<Rightarrow> response \<Rightarrow> response" where
  "response_or r fallback = (case r of
       None \<Rightarrow> fallback
     | Some (RespText t) \<Rightarrow> (if t = [] then fallback else RespText t)
     | Some other \<Rightarrow> other)"

text \<open>
  \<^verbatim>\<open>executeFlow(flowName, initialState)\<close> over the stored flows: find the flow by name,
  convert it, run it on a state made from the initial one, and read the result off the
  state. An error of the run is logged and thrown again.
\<close>

definition executeFlow ::
  "nat \<Rightarrow> env \<Rightarrow> heap \<Rightarrow> react_flow list \<Rightarrow> string \<Rightarrow> shared_state \<Rightarrow> (error + flow_result) option" where
  "executeFlow n env h flows name initialState =
     (case find (\<lambda>flow. rf_name flow = name) flows of
        None \<Rightarrow> Some (Inl (Error (''Flow not found: '' @ name)))
      | Some reactFlow \<Rightarrow> (case convert h reactFlow of
            None \<Rightarrow> None
          | Some (Inl e) \<Rightarrow> Some (Inl e)
          | Some (Inr (h1, pocketFlow)) \<Rightarrow>
             (let sharedState = initialState\<lparr>flowName := VStr name, startTime := now_ms env,
                                             top_nodeExecutionTracker := Some []\<rparr>
              in case Flow_run_top n env h1 pocketFlow sharedState of
                   None \<Rightarrow> None
                 | Some (Inl (e, h2, s2)) \<Rightarrow> Some (Inl e)
                 | Some (Inr (action, h2, s2)) \<Rightarrow>
                     Some (Inr \<lparr>result = response_or (lastResponse s2) (RespText ''Flow execution completed''),
                                result_messages = messages s2,
                                executionTime = later_ms env - startTime s2,
                                result_nodeExecutionTracker =
                                  (case top_nodeExecutionTracker s2 of None \<Rightarrow> [] | Some t \<Rightarrow> t)\<rparr>))))"

section \<open>Specification-side notions and example inputs\<close>

text \<open>
  An edge denotes a tool binding when its name contains \<open>-mcpEdge\<close>, ends with
  \<open>mcpEdge\<close> or contains \<open>-mcp\<close>; every other edge is a flow-control edge.
\<close>

definition tool_binding_edge :: "string \<Rightarrow> bool" where
  "tool_binding_edge action =
     (sublist ''-mcpEdge'' action \<or> suffix ''mcpEdge'' action \<or> sublist ''-mcp'' action)"

definition empty_heap :: heap where
  "empty_heap = \<lparr>objs = [], maps = [], nodes = []\<rparr>"

text \<open>A process node (address 0) with one successor, a finish node (address 1), under \<open>e1\<close>.\<close>

definition linked_pair :: heap where
  "linked_pair = \<lparr>objs = [CObj [], CObj [], CObj [], CObj []],
     maps = [[(''e1'', 1)], []],
     nodes = [\<lparr>kind = ProcessNode, flow_params = VRef 0, node_params = VRef 1, successors = 0\<rparr>,
              \<lparr>kind = FinishNode, flow_params = VRef 2, node_params = VRef 3, successors = 1\<rparr>]\<rparr>"

text \<open>
  An environment for the examples: a renderer that returns a fixed prompt, tool handlers that
  succeed, a model handler that fails for the model \<open>m2\<close> and answers \<open>ok\<close> for any
  other, and start and tool nodes that leave the state alone and follow their first edge.
\<close>

definition first_edge_run :: "heap \<Rightarrow> addr \<Rightarrow> shared_state \<Rightarrow> run_result" where
  "first_edge_run h a s = Inr (case successor_keys h a of k # ks \<Rightarrow> k | [] \<Rightarrow> ''default'', h, s)"

definition quota_error :: provider_error where
  "quota_error = \<lparr>pe_message = ''quota exceeded'', pe_type = ''api'', pe_code = VStr ''429'',
                   pe_modelId = VUndef, pe_details = None\<rparr>"

definition sample_callModel :: "model_request \<Rightarrow> error + model_result" where
  "sample_callModel req =
     (if mr_modelId req = VStr ''m2'' then Inr (ModelFailure quota_error)
      else Inr (ModelSuccess \<lparr>mv_content = Some ''ok'',
             mv_messages = Some (mr_messages req @ [\<lparr>role = ''assistant'', content = ContentText ''ok''\<rparr>]),
             mv_fullResponse = VUndef, mv_toolCalls = VUndef\<rparr>))"

definition sample_env :: env where
  "sample_env = \<lparr>renderPrompt = (\<lambda>fid nid a b. Inr ''You are helpful''),
      processMCPNodes = (\<lambda>h v. Inr (HSuccess [])),
      prepareTools = (\<lambda>ts. HSuccess ts),
      callModel = sample_callModel,
      stack_of = (\<lambda>e. None),
      now_iso = ''2025-01-01T00:00:00.000Z'',
      now_ms = 0, later_ms = 5,
      STAY_ON_NODE_ACTION = ''STAY_ON_NODE'',
      FINAL_RESPONSE_ACTION = ''FINAL_RESPONSE'',
      ENABLE_EXECUTION_TRACKER = False,
      StartNode_run = first_edge_run,
      MCPNode_run = first_edge_run\<rparr>"

definition sample_state :: shared_state where
  "sample_state = \<lparr>messages = [\<lparr>role = ''system'', content = ContentText ''old prompt''\<rparr>,
                               \<lparr>role = ''user'', content = ContentText ''hi''\<rparr>,
                               \<lparr>role = ''assistant'', content = ContentText ''done''\<rparr>],
     flowId = VStr ''flow1'', lastResponse = None,
     trackingInfo = Some \<lparr>nodeExecutionTracker = Some []\<rparr>,
     currentNodeId = VUndef, mcpContext_availableTools = None, flowName = VUndef, startTime = 0,
     top_nodeExecutionTracker = None\<rparr>"

text \<open>
  A process node \<open>p\<close> bound to the model \<open>m1\<close> (address 0) with three outgoing edges,
  the first of them a tool binding.
\<close>

definition branching_node :: heap where
  "branching_node = \<lparr>objs = [CObj [], CObj [(''id'', VStr ''p''), (''properties'', VRef 2)],
                              CObj [(''boundModel'', VStr ''m1'')], CObj [], CObj []],
     maps = [[(''t1-mcpEdge'', 1), (''e2'', 1), (''e3'', 1)], []],
     nodes = [\<lparr>kind = ProcessNode, flow_params = VRef 0, node_params = VRef 1, successors = 0\<rparr>,
              \<lparr>kind = FinishNode, flow_params = VRef 3, node_params = VRef 4, successors = 1\<rparr>]\<rparr>"

definition sample_prep :: process_prep_result where
  "sample_prep = \<lparr>pr_nodeId = VStr ''p'', pr_nodeType = ''process'', pr_currentPrompt = ''You are helpful'',
      pr_boundModel = VStr ''m1'', pr_availableTools = [],
      pr_messages = [\<lparr>role = ''system'', content = ContentText ''You are helpful''\<rparr>,
                     \<lparr>role = ''user'', content = ContentText ''hi''\<rparr>,
                     \<lparr>role = ''assistant'', content = ContentText ''done''\<rparr>],
      pr_modelDisplayName = VUndef\<rparr>"

definition sample_failure :: process_exec_result where
  "sample_failure = \<lparr>er_success = False, er_content = None, er_messages = None,
      er_fullResponse = VUndef, er_toolCalls = VUndef, er_error = Some ''Failed to prepare tools: none'',
      er_errorDetails = Some \<lparr>ed_message = ''Failed to prepare tools: none'', ed_name = Some ''Error'',
                               ed_stack = None\<rparr>\<rparr>"

definition sample_entry :: tracker_entry where
  "sample_entry = \<lparr>nodeType = ''ProcessNode'', nodeId = VStr ''p'', nodeName = VStr ''Process Node'',
      modelDisplayName = VStr ''Unknown Model'', modelTechnicalName = VStr ''m1'', allowedTools = VUndef,
      timestamp = ''2025-01-01T00:00:00.000Z''\<rparr>"

text \<open>The shared state as post leaves it, whether it returns or throws.\<close>

definition post_state :: "post_result \<Rightarrow> shared_state" where
  "post_state r = (case r of Inl (e, s) \<Rightarrow> s | Inr (a, s) \<Rightarrow> s)"

definition system_messages :: "message list \<Rightarrow> message list" where
  "system_messages ms = filter (\<lambda>msg. role msg = ''system'') ms"

definition sample_success :: process_exec_result where
  "sample_success = \<lparr>er_success = True, er_content = Some ''ok'',
      er_messages = Some (pr_messages sample_prep @ [\<lparr>role = ''assistant'', content = ContentText ''ok''\<rparr>]),
      er_fullResponse = VUndef, er_toolCalls = VUndef, er_error = None, er_errorDetails = None\<rparr>"

text \<open>
  The value the details object of the thrown model error holds under a key the code sets
  from the provider's error: the provider's own field, unless the provider's details object,
  spread last, has the key itself.
\<close>

definition provided :: "provider_error \<Rightarrow> string \<Rightarrow> val \<Rightarrow> val" where
  "provided pe k own = (case pe_details pe of
       None \<Rightarrow> own
     | Some ds \<Rightarrow> (case map_of (rev ds) k of Some v \<Rightarrow> v | None \<Rightarrow> own))"

text \<open>
  The loop, started with a budget of \<open>m\<close> passes at one node, arrives with \<open>n\<close> passes left
  at another: every pass in between has named a successor to go on with.
\<close>

inductive loop_arrives ::
  "env \<Rightarrow> addr \<Rightarrow> val \<Rightarrow> val \<Rightarrow> nat \<Rightarrow> heap \<times> addr \<times> shared_state \<Rightarrow> nat \<Rightarrow> heap \<times> addr \<times> shared_state \<Rightarrow> bool"
  for env this flowParams nodeParams where
  here: "loop_arrives env this flowParams nodeParams n cfg n cfg"
| pass: "orch_visit (orch_loop m) env h0 this flowParams nodeParams a0 s0 = Some (Next h1 a1 s1) \<Longrightarrow>
         loop_arrives env this flowParams nodeParams m (h1, a1, s1) n cfg \<Longrightarrow>
         loop_arrives env this flowParams nodeParams (Suc m) (h0, a0, s0) n cfg"

definition run_arrives ::
  "env \<Rightarrow> addr \<Rightarrow> val \<Rightarrow> val \<Rightarrow> nat \<Rightarrow> heap \<Rightarrow> shared_state \<Rightarrow> nat \<Rightarrow> heap \<times> addr \<times> shared_state \<Rightarrow> bool" where
  "run_arrives env this flowParams nodeParams m h sharedState n cfg =
     (\<exists>h1 a. resume_entry h this sharedState = Some (h1, a)
            \<and> loop_arrives env this flowParams nodeParams m (h1, a, sharedState) n cfg)"

text \<open>
  A process node \<open>b\<close> bound to the failing model \<open>m2\<close> (address 0) with a finish node
  behind it, and a flow (address 2) that starts at it; a state whose tracker holds one
  entry of an earlier node.
\<close>

definition failing_graph :: heap where
  "failing_graph = \<lparr>objs = [CObj [], CObj [(''id'', VStr ''b''), (''properties'', VRef 2)],
                             CObj [(''boundModel'', VStr ''m2'')], CObj [], CObj [], CObj [], CObj []],
     maps = [[(''e3'', 1)], [], []],
     nodes = [\<lparr>kind = ProcessNode, flow_params = VRef 0, node_params = VRef 1, successors = 0\<rparr>,
              \<lparr>kind = FinishNode, flow_params = VRef 3, node_params = VRef 4, successors = 1\<rparr>,
              \<lparr>kind = Flow 0, flow_params = VRef 5, node_params = VRef 6, successors = 2\<rparr>]\<rparr>"

definition tracked_state :: shared_state where
  "tracked_state = sample_state\<lparr>trackingInfo := Some \<lparr>nodeExecutionTracker = Some [sample_entry]\<rparr>\<rparr>"

text \<open>The store once the start node of \<open>failing_graph\<close> has been cloned (to address 3).\<close>

definition failing_entry :: heap where
  "failing_entry = \<lparr>objs = [CObj [], CObj [(''id'', VStr ''b''), (''properties'', VRef 2)],
                             CObj [(''boundModel'', VStr ''m2'')], CObj [], CObj [], CObj [], CObj [],
                             CObj [], CObj [], CObj [],
                             CObj [(''boundModel'', VStr ''m2'')],
                             CObj [(''id'', VStr ''b''), (''properties'', VRef 10)]],
     maps = [[(''e3'', 1)], [], [], [], [(''e3'', 1)]],
     nodes = [\<lparr>kind = ProcessNode, flow_params = VRef 0, node_params = VRef 1, successors = 0\<rparr>,
              \<lparr>kind = FinishNode, flow_params = VRef 3, node_params = VRef 4, successors = 1\<rparr>,
              \<lparr>kind = Flow 0, flow_params = VRef 5, node_params = VRef 6, successors = 2\<rparr>,
              \<lparr>kind = ProcessNode, flow_params = VRef 9, node_params = VRef 11, successors = 4\<rparr>]\<rparr>"

definition failing_prep :: process_prep_result where
  "failing_prep = sample_prep\<lparr>pr_nodeId := VStr ''b'', pr_boundModel := VStr ''m2''\<rparr>"

text \<open>
  A chain of four nodes for the converter: a start node, a process node \<open>a\<close> bound to the
  model \<open>m1\<close>, a process node \<open>b\<close> bound to the failing model \<open>m2\<close>, and a finish node.
\<close>

definition two_models :: heap where
  "two_models = \<lparr>objs = [CObj [(''boundModel'', VStr ''m1'')], CObj [(''boundModel'', VStr ''m2'')]],
                  maps = [], nodes = []\<rparr>"

definition chain_flow :: react_flow where
  "chain_flow = \<lparr>rf_id = ''flow1'', rf_name = ''chain'',
     rf_nodes = [\<lparr>fn_id = ''s'', fn_type = ''start'', fn_label = VStr ''Start'', fn_properties = VUndef\<rparr>,
                 \<lparr>fn_id = ''a'', fn_type = ''process'', fn_label = VStr ''A'', fn_properties = VRef 0\<rparr>,
                 \<lparr>fn_id = ''b'', fn_type = ''process'', fn_label = VStr ''B'', fn_properties = VRef 1\<rparr>,
                 \<lparr>fn_id = ''f'', fn_type = ''finish'', fn_label = VStr ''Finish'', fn_properties = VUndef\<rparr>],
     rf_edges = [\<lparr>e_id = ''e1'', e_source = ''s'', e_target = ''a''\<rparr>,
                 \<lparr>e_id = ''e2'', e_source = ''a'', e_target = ''b''\<rparr>,
                 \<lparr>e_id = ''e3'', e_source = ''b'', e_target = ''f''\<rparr>]\<rparr>"

text \<open>What a run that was aborted leaves in the tracker of the shared state.\<close>

definition aborted_tracker :: "run_result option \<Rightarrow> tracker_entry list option" where
  "aborted_tracker r = (case r of
       Some (Inl (e, h, s)) \<Rightarrow> (case trackingInfo s of None \<Rightarrow> None | Some ti \<Rightarrow> nodeExecutionTracker ti)
     | _ \<Rightarrow> None)"

definition converted :: "(error + heap \<times> addr) option \<Rightarrow> heap \<times> addr" where
  "converted r = (case r of Some (Inr x) \<Rightarrow> x | _ \<Rightarrow> (empty_heap, 0))"

text \<open>
  A finish node \<open>f\<close> without outgoing edges (address 0) and a flow (address 1) that starts
  at it; the store once the start node has been cloned (to address 2); and a description
  of a start node followed by a finish node, for the converter.
\<close>

definition finish_only :: heap where
  "finish_only = \<lparr>objs = [CObj [], CObj [(''id'', VStr ''f'')], CObj [], CObj []],
     maps = [[], []],
     nodes = [\<lparr>kind = FinishNode, flow_params = VRef 0, node_params = VRef 1, successors = 0\<rparr>,
              \<lparr>kind = Flow 0, flow_params = VRef 2, node_params = VRef 3, successors = 1\<rparr>]\<rparr>"

definition finish_entry :: heap where
  "finish_entry = \<lparr>objs = [CObj [], CObj [(''id'', VStr ''f'')], CObj [], CObj [],
                            CObj [], CObj [], CObj [], CObj [(''id'', VStr ''f'')]],
     maps = [[], [], [], []],
     nodes = [\<lparr>kind = FinishNode, flow_params = VRef 0, node_params = VRef 1, successors = 0\<rparr>,
              \<lparr>kind = Flow 0, flow_params = VRef 2, node_params = VRef 3, successors = 1\<rparr>,
              \<lparr>kind = FinishNode, flow_params = VRef 6, node_params = VRef 7, successors = 3\<rparr>]\<rparr>"

definition start_finish_flow :: react_flow where
  "start_finish_flow = \<lparr>rf_id = ''flow1'', rf_name = ''demo'',
     rf_nodes = [\<lparr>fn_id = ''s'', fn_type = ''start'', fn_label = VStr ''Start'', fn_properties = VUndef\<rparr>,
                 \<lparr>fn_id = ''f'', fn_type = ''finish'', fn_label = VStr ''Finish'', fn_properties = VUndef\<rparr>],
     rf_edges = [\<lparr>e_id = ''e1'', e_source = ''s'', e_target = ''f''\<rparr>]\<rparr>"

definition result_of :: "(error + flow_result) option \<Rightarrow> response option" where
  "result_of r = (case r of Some (Inr x) \<Rightarrow> Some (result x) | _ \<Rightarrow> None)"

text \<open>
  The id, as \<^verbatim>\<open>flow_params.id\<close>, of the start node of the flow a conversion has built.
\<close>

definition built_start_id :: "(error + heap \<times> addr) option \<Rightarrow> val option" where
  "built_start_id r = (case r of
       Some (Inr (h, flow)) \<Rightarrow> (case node_at h flow of
           Some n \<Rightarrow> (case kind n of
               Flow start \<Rightarrow> Some (get_prop h (node_flow_params h start) ''id'')
             | _ \<Rightarrow> None)
         | None \<Rightarrow> None)
     | _ \<Rightarrow> None)"

text \<open>A description with two start nodes, and one with none.\<close>

definition two_starts_flow :: react_flow where
  "two_starts_flow = \<lparr>rf_id = ''flow2'', rf_name = ''twice'',
     rf_nodes = [\<lparr>fn_id = ''s1'', fn_type = ''start'', fn_label = VStr ''Start 1'', fn_properties = VUndef\<rparr>,
                 \<lparr>fn_id = ''s2'', fn_type = ''start'', fn_label = VStr ''Start 2'', fn_properties = VUndef\<rparr>,
                 \<lparr>fn_id = ''f'', fn_type = ''finish'', fn_label = VStr ''Finish'', fn_properties = VUndef\<rparr>],
     rf_edges = [\<lparr>e_id = ''e1'', e_source = ''s1'', e_target = ''f''\<rparr>,
                 \<lparr>e_id = ''e2'', e_source = ''s2'', e_target = ''f''\<rparr>]\<rparr>"

definition no_start_flow :: react_flow where
  "no_start_flow = \<lparr>rf_id = ''flow3'', rf_name = ''none'',
     rf_nodes = [\<lparr>fn_id = ''f'', fn_type = ''finish'', fn_label = VStr ''Finish'', fn_properties = VUndef\<rparr>],
     rf_edges = []\<rparr>"

text \<open>
  The Map of the converter is in step with the store: each of its nodes exists, has its
  successor Map, and carries the id it is registered under.
\<close>

definition wired :: "heap \<Rightarrow> (string \<times> addr) list \<Rightarrow> bool" where
  "wired h nodesMap = (\<forall>(i, a)\<in>set nodesMap.
       a < length (nodes h) \<and> successors (nodes h ! a) < length (maps h)
     \<and> get_prop h (flow_params (nodes h ! a)) ''id'' = VStr i)"

text \<open>
  An environment whose tool nodes suspend (as for an approval), a tool node \<open>m\<close> behind a
  start node \<open>s\<close> as the converter builds them, and the same two nodes with their ids in
  \<^verbatim>\<open>node_params\<close> (start node at address 0, tool node at 1, flow at 2).
\<close>

definition suspend_run :: "heap \<Rightarrow> addr \<Rightarrow> shared_state \<Rightarrow> run_result" where
  "suspend_run h a s = Inr (''STAY_ON_NODE'', h, s)"

definition pausing_env :: env where
  "pausing_env = sample_env\<lparr>MCPNode_run := suspend_run\<rparr>"

definition start_tool_flow :: react_flow where
  "start_tool_flow = \<lparr>rf_id = ''flow1'', rf_name = ''pause'',
     rf_nodes = [\<lparr>fn_id = ''s'', fn_type = ''start'', fn_label = VStr ''Start'', fn_properties = VUndef\<rparr>,
                 \<lparr>fn_id = ''m'', fn_type = ''mcp'', fn_label = VStr ''Tools'', fn_properties = VUndef\<rparr>],
     rf_edges = [\<lparr>e_id = ''e1'', e_source = ''s'', e_target = ''m''\<rparr>]\<rparr>"

definition resumable :: heap where
  "resumable = \<lparr>objs = [CObj [(''id'', VStr ''s'')], CObj [(''id'', VStr ''m'')], CObj []],
     maps = [[(''e1'', 1)], [], []],
     nodes = [\<lparr>kind = StartNode, flow_params = VRef 0, node_params = VRef 0, successors = 0\<rparr>,
              \<lparr>kind = MCPNode, flow_params = VRef 1, node_params = VRef 1, successors = 1\<rparr>,
              \<lparr>kind = Flow 0, flow_params = VRef 2, node_params = VRef 2, successors = 2\<rparr>]\<rparr>"

text \<open>What a run that returned leaves: the store and the shared state.\<close>

definition left_by :: "run_result option \<Rightarrow> heap \<times> shared_state" where
  "left_by r = (case r of Some (Inr (a, h, s)) \<Rightarrow> (h, s) | _ \<Rightarrow> (empty_heap, sample_state))"

text \<open>The class of the node at which an invocation of \<^verbatim>\<open>orchestrate\<close> begins.\<close>

definition entry_kind :: "addr \<Rightarrow> heap \<times> shared_state \<Rightarrow> node_kind option" where
  "entry_kind this hs = (case resume_entry (fst hs) this (snd hs) of
       Some (h, a) \<Rightarrow> map_option kind (node_at h a)
     | None \<Rightarrow> None)"

text \<open>
  The store of \<open>resumable\<close> on its run: once the start node has been cloned (to address 3),
  when the loop arrives at the clone of the tool node (address 4), and once the parameters
  of that clone have been set.
\<close>

definition resumable_entry :: heap where
  "resumable_entry = \<lparr>objs = [CObj [(''id'', VStr ''s'')], CObj [(''id'', VStr ''m'')], CObj [],
                               CObj [], CObj [], CObj [(''id'', VStr ''s'')], CObj [(''id'', VStr ''s'')]],
     maps = [[(''e1'', 1)], [], [], [], [(''e1'', 1)]],
     nodes = [\<lparr>kind = StartNode, flow_params = VRef 0, node_params = VRef 0, successors = 0\<rparr>,
              \<lparr>kind = MCPNode, flow_params = VRef 1, node_params = VRef 1, successors = 1\<rparr>,
              \<lparr>kind = Flow 0, flow_params = VRef 2, node_params = VRef 2, successors = 2\<rparr>,
              \<lparr>kind = StartNode, flow_params = VRef 5, node_params = VRef 6, successors = 4\<rparr>]\<rparr>"

definition resumable_at_tool :: heap where
  "resumable_at_tool = \<lparr>objs = [CObj [(''id'', VStr ''s'')], CObj [(''id'', VStr ''m'')], CObj [],
                               CObj [], CObj [], CObj [(''id'', VStr ''s'')], CObj [(''id'', VStr ''s'')],
                               CObj [], CObj [], CObj [(''id'', VStr ''m'')], CObj [(''id'', VStr ''m'')]],
     maps = [[(''e1'', 1)], [], [], [], [(''e1'', 1)], [], []],
     nodes = [\<lparr>kind = StartNode, flow_params = VRef 0, node_params = VRef 0, successors = 0\<rparr>,
              \<lparr>kind = MCPNode, flow_params = VRef 1, node_params = VRef 1, successors = 1\<rparr>,
              \<lparr>kind = Flow 0, flow_params = VRef 2, node_params = VRef 2, successors = 2\<rparr>,
              \<lparr>kind = StartNode, flow_params = VRef 2, node_params = VRef 6, successors = 4\<rparr>,
              \<lparr>kind = MCPNode, flow_params = VRef 9, node_params = VRef 10, successors = 6\<rparr>]\<rparr>"

definition resumable_paused :: heap where
  "resumable_paused = set_node resumable_at_tool 4
     \<lparr>kind = MCPNode, flow_params = VRef 2, node_params = VRef 10, successors = 6\<rparr>"

text \<open>
  The flow the converter builds from the description of the start node \<open>s\<close> followed by
  the tool node \<open>m\<close> (start node at address 0, tool node at 1, flow at 2), and what its
  first run, suspended at the tool node, leaves.
\<close>

definition pause_flow_built :: "heap \<times> addr" where
  "pause_flow_built = converted (convert empty_heap start_tool_flow)"

definition pause_flow_paused :: "heap \<times> shared_state" where
  "pause_flow_paused = left_by (Flow_run_top 5 pausing_env (fst pause_flow_built) (snd pause_flow_built)
                                   sample_state)"

text \<open>The reply of the example model to the request of the process node \<open>p\<close>.\<close>

definition sample_reply :: model_value where
  "sample_reply = \<lparr>mv_content = Some ''ok'',
      mv_messages = Some (pr_messages sample_prep @ [\<lparr>role = ''assistant'', content = ContentText ''ok''\<rparr>]),
      mv_fullResponse = VUndef, mv_toolCalls = VUndef\<rparr>"

text \<open>A shared state whose tracking information holds no tracker array.\<close>

definition untracked_state :: shared_state where
  "untracked_state = sample_state\<lparr>trackingInfo := Some \<lparr>nodeExecutionTracker = None\<rparr>\<rparr>"

text \<open>
  The objects a value reaches in the store, the content of a value read off the store as a
  tree, and a store without dangling references: notions for stating what a deep copy is.
\<close>

fun cell_vals :: "cell \<Rightarrow> val list" where
  "cell_vals (CObj fs) = map snd fs"
| "cell_vals (CArr xs) = xs"

inductive_set reach :: "heap \<Rightarrow> val \<Rightarrow> addr set" for h :: heap and v :: val where
  root: "v = VRef a \<Longrightarrow> a < length (objs h) \<Longrightarrow> a \<in> reach h v"
| step: "a \<in> reach h v \<Longrightarrow> VRef b \<in> set (cell_vals (objs h ! a)) \<Longrightarrow> b < length (objs h) \<Longrightarrow>
         b \<in> reach h v"

text \<open>An object or array with its members replaced, keys and order kept.\<close>

fun with_vals :: "cell \<Rightarrow> val list \<Rightarrow> cell" where
  "with_vals (CObj fs) vs = CObj (zip (map fst fs) vs)"
| "with_vals (CArr xs) vs = CArr vs"

text \<open>A value is a primitive or a reference to an object in the given address range.\<close>

definition within :: "nat \<Rightarrow> nat \<Rightarrow> val \<Rightarrow> bool" where
  "within lo hi v = (case v of VRef a \<Rightarrow> lo \<le> a \<and> a < hi | _ \<Rightarrow> True)"

definition closed_objs :: "heap \<Rightarrow> bool" where
  "closed_objs h = (\<forall>c\<in>set (objs h). \<forall>w\<in>set (cell_vals c). within 0 (length (objs h)) w)"

definition closed_store :: "heap \<Rightarrow> bool" where
  "closed_store h =
     (closed_objs h
    \<and> (\<forall>n\<in>set (nodes h). within 0 (length (objs h)) (flow_params n)
                          \<and> within 0 (length (objs h)) (node_params n)
                          \<and> successors n < length (maps h)))"

datatype tree = Leaf val | TObj "(string \<times> tree) list" | TArr "tree list"

definition content_cell :: "(val \<Rightarrow> tree option) \<Rightarrow> cell \<Rightarrow> tree option" where
  "content_cell f c = (case c of
       CObj fs \<Rightarrow> map_option (\<lambda>ts. TObj (zip (map fst fs) ts)) (those (map f (map snd fs)))
     | CArr xs \<Rightarrow> map_option TArr (those (map f xs)))"

primrec content_f :: "nat \<Rightarrow> heap \<Rightarrow> val \<Rightarrow> tree option" where
  "content_f 0 h v = (case v of VRef a \<Rightarrow> None | _ \<Rightarrow> Some (Leaf v))"
| "content_f (Suc n) h v = (case v of
       VRef a \<Rightarrow> (case obj_at h a of
           None \<Rightarrow> None
         | Some c \<Rightarrow> content_cell (content_f n h) c)
     | _ \<Rightarrow> Some (Leaf v))"

definition content_of :: "heap \<Rightarrow> val \<Rightarrow> tree option" where
  "content_of h v = content_f (length (objs h)) h v"

text \<open>
  The store has grown by objects that refer to each other only: what a deep copy adds.
\<close>

definition grown :: "heap \<Rightarrow> heap \<Rightarrow> bool" where
  "grown h h' = (\<exists>new. objs h' = objs h @ new
       \<and> (\<forall>c\<in>set new. \<forall>w\<in>set (cell_vals c). within (length (objs h)) (length (objs h')) w))"

text \<open>
  What one deep copy does to the store: it adds objects that refer to each other only, and
  touches neither Maps nor nodes; the copy is a primitive or one of the added objects.
\<close>

definition copies :: "(heap \<Rightarrow> val \<Rightarrow> (heap \<times> val) option) \<Rightarrow> bool" where
  "copies f = (\<forall>h v h' v'. f h v = Some (h', v') \<longrightarrow>
       grown h h' \<and> maps h' = maps h \<and> nodes h' = nodes h
     \<and> within (length (objs h)) (length (objs h')) v')"

text \<open>The objects that make up a node's two parameter values.\<close>

definition param_objs :: "heap \<Rightarrow> node \<Rightarrow> addr set" where
  "param_objs h n = reach h (flow_params n) \<union> reach h (node_params n)"

text \<open>Reading the two parameter values of a node gives the same in both stores.\<close>

definition same_params :: "heap \<Rightarrow> heap \<Rightarrow> node \<Rightarrow> bool" where
  "same_params h' h n =
     (content_of h' (flow_params n) = content_of h (flow_params n)
    \<and> content_of h' (node_params n) = content_of h (node_params n))"

text \<open>
  A template (address 0) whose parameters nest an object and an array, with one successor
  (address 1) under \<open>e1\<close>.
\<close>

definition nested_template :: heap where
  "nested_template = \<lparr>objs = [CObj [(''flowId'', VStr ''f'')],
                               CObj [(''id'', VStr ''p''), (''properties'', VRef 2)],
                               CObj [(''tools'', VRef 3)],
                               CArr [VStr ''search'', VNum 1],
                               CObj [], CObj []],
     maps = [[(''e1'', 1)], []],
     nodes = [\<lparr>kind = ProcessNode, flow_params = VRef 0, node_params = VRef 1, successors = 0\<rparr>,
              \<lparr>kind = FinishNode, flow_params = VRef 4, node_params = VRef 5, successors = 1\<rparr>]\<rparr>"

definition template_node :: node where
  "template_node = \<lparr>kind = ProcessNode, flow_params = VRef 0, node_params = VRef 1, successors = 0\<rparr>"

text \<open>The store after the template has been cloned once, and after it has been cloned twice.\<close>

definition cloned_once :: heap where
  "cloned_once = \<lparr>objs = [CObj [(''flowId'', VStr ''f'')],
                           CObj [(''id'', VStr ''p''), (''properties'', VRef 2)],
                           CObj [(''tools'', VRef 3)],
                           CArr [VStr ''search'', VNum 1],
                           CObj [], CObj [],
                           CObj [], CObj [],
                           CObj [(''flowId'', VStr ''f'')],
                           CArr [VStr ''search'', VNum 1],
                           CObj [(''tools'', VRef 9)],
                           CObj [(''id'', VStr ''p''), (''properties'', VRef 10)]],
     maps = [[(''e1'', 1)], [], [], [(''e1'', 1)]],
     nodes = [\<lparr>kind = ProcessNode, flow_params = VRef 0, node_params = VRef 1, successors = 0\<rparr>,
              \<lparr>kind = FinishNode, flow_params = VRef 4, node_params = VRef 5, successors = 1\<rparr>,
              \<lparr>kind = ProcessNode, flow_params = VRef 8, node_params = VRef 11, successors = 3\<rparr>]\<rparr>"

definition cloned_twice :: heap where
  "cloned_twice = \<lparr>objs = [CObj [(''flowId'', VStr ''f'')],
                            CObj [(''id'', VStr ''p''), (''properties'', VRef 2)],
                            CObj [(''tools'', VRef 3)],
                            CArr [VStr ''search'', VNum 1],
                            CObj [], CObj [],
                            CObj [], CObj [],
                            CObj [(''flowId'', VStr ''f'')],
                            CArr [VStr ''search'', VNum 1],
                            CObj [(''tools'', VRef 9)],
                            CObj [(''id'', VStr ''p''), (''properties'', VRef 10)],
                            CObj [], CObj [],
                            CObj [(''flowId'', VStr ''f'')],
                            CArr [VStr ''search'', VNum 1],
                            CObj [(''tools'', VRef 15)],
                            CObj [(''id'', VStr ''p''), (''properties'', VRef 16)]],
     maps = [[(''e1'', 1)], [], [], [(''e1'', 1)], [], [(''e1'', 1)]],
     nodes = [\<lparr>kind = ProcessNode, flow_params = VRef 0, node_params = VRef 1, successors = 0\<rparr>,
              \<lparr>kind = FinishNode, flow_params = VRef 4, node_params = VRef 5, successors = 1\<rparr>,
              \<lparr>kind = ProcessNode, flow_params = VRef 8, node_params = VRef 11, successors = 3\<rparr>,
              \<lparr>kind = ProcessNode, flow_params = VRef 14, node_params = VRef 17, successors = 5\<rparr>]\<rparr>"

definition first_clone :: node where
  "first_clone = \<lparr>kind = ProcessNode, flow_params = VRef 8, node_params = VRef 11, successors = 3\<rparr>"

definition second_clone :: node where
  "second_clone = \<lparr>kind = ProcessNode, flow_params = VRef 14, node_params = VRef 17, successors = 5\<rparr>"

text \<open>The tool list of the first clone's parameters (object 9) overwritten.\<close>

definition first_clone_mutated :: heap where
  "first_clone_mutated = set_obj cloned_twice 9 (CArr [VStr ''fetch''])"

text \<open>The first clone given one more successor, under \<open>e2\<close>.\<close>

definition successor_added :: heap where
  "successor_added = set_map cloned_twice 3 [(''e1'', 1), (''e2'', 1)]"

section \<open>Registering successors\<close>

lemma linked_pair_built:
  "(let (h1, a) = BaseNode_new empty_heap ProcessNode; (h2, b) = BaseNode_new h1 FinishNode
    in addSuccessor h2 a b ''e1'') = Some (Inr linked_pair)"
  by code_simp

lemma Map_set_fresh: "\<not> Map_has m k \<Longrightarrow> Map_set m k v = m @ [(k, v)]"
  by (induction m) (auto simp: Map_has_def)

text \<open>
  C9. Registering a successor under an action that is already a key of the node's Map
  throws (the store is not written: nothing is returned in its place); under a fresh action
  it appends exactly that entry to the node's Map and changes nothing else in the store.
\<close>

theorem addSuccessor_unique_actions:
  assumes "node_at h this = Some n" and "map_at h (successors n) = Some m"
  shows "(Map_has m action \<longrightarrow>
            addSuccessor h this newSuccessor action
              = Some (Inl (Error (''Action '' @ action @ '' already exists''))))
       \<and> (\<not> Map_has m action \<longrightarrow>
            (\<exists>h'. addSuccessor h this newSuccessor action = Some (Inr h')
               \<and> map_at h' (successors n) = Some (m @ [(action, newSuccessor)])
               \<and> (\<forall>a. a \<noteq> successors n \<longrightarrow> map_at h' a = map_at h a)
               \<and> nodes h' = nodes h \<and> objs h' = objs h))"
  using assms
  by (auto simp: addSuccessor_def Map_set_fresh set_map_def map_at_def split: if_splits)

theorem addSuccessor_unique_actions_witness:
  "addSuccessor linked_pair 0 1 ''e1'' = Some (Inl (Error ''Action e1 already exists''))
   \<and> (\<exists>h'. addSuccessor linked_pair 0 1 ''e2'' = Some (Inr h')
         \<and> map_at h' 0 = Some [(''e1'', 1), (''e2'', 1)]
         \<and> map_at h' 1 = map_at linked_pair 1)"
proof -
  have n: "node_at linked_pair 0
             = Some \<lparr>kind = ProcessNode, flow_params = VRef 0, node_params = VRef 1, successors = 0\<rparr>"
    by code_simp
  have m: "map_at linked_pair
             (successors \<lparr>kind = ProcessNode, flow_params = VRef 0, node_params = VRef 1, successors = 0\<rparr>)
           = Some [(''e1'', 1)]"
    by code_simp
  from addSuccessor_unique_actions[OF n m, of "''e1''" 1]
       addSuccessor_unique_actions[OF n m, of "''e2''" 1]
  show ?thesis by (auto simp: Map_has_def)
qed

section \<open>A Flow used as a node\<close>

text \<open>
  C8. \<^verbatim>\<open>Flow.post\<close> returns the default action on every input and leaves the shared
  state as it is; \<^verbatim>\<open>Flow.execCore\<close> throws on every input, and so does the generic
  \<^verbatim>\<open>run\<close> of a node whose execCore is the Flow's, once its prep has returned.
\<close>

theorem Flow_as_node:
  "Flow_post prepResult execResult sharedState nparams = Inr (''default'', sharedState)
   \<and> Flow_execCore prepResult' nparams' = Inl (Error ''Flow node does not support direct execution'')
   \<and> BaseNode_run (\<lambda>s np. Inr p) Flow_execCore post sharedState nparams
       = Inl (Error ''Flow node does not support direct execution'', sharedState)"
  by (simp add: Flow_post_def Flow_execCore_def DEFAULT_ACTION_def BaseNode_run_def execWrapper_def
           split: sum.splits)

section \<open>Successor selection of the process node\<close>

lemma js_includes_sublist: "js_includes s sub = sublist sub s"
  by (induction s) (auto simp: sublist_Cons_right)

lemma js_endsWith_suffix: "js_endsWith s suf = suffix suf s"
  by (simp add: js_endsWith_def suffix_to_prefix)

lemma standard_edge_iff: "standard_edge a = (\<not> tool_binding_edge a)"
  by (simp add: standard_edge_def tool_binding_edge_def js_includes_sublist js_endsWith_suffix)

lemma next_action_first:
  "\<forall>k\<in>set pre. \<not> standard_edge k \<Longrightarrow> standard_edge a \<Longrightarrow>
     ProcessNode_next_action (pre @ a # rest) = a"
  by (simp add: ProcessNode_next_action_def filter_empty_conv[THEN iffD2])

lemma next_action_default:
  "\<forall>k\<in>set ks. \<not> standard_edge k \<Longrightarrow> ProcessNode_next_action ks = ''default''"
  by (simp add: ProcessNode_next_action_def filter_empty_conv[THEN iffD2])

lemma ProcessNode_post_action:
  "ProcessNode_post env h this p e s np = Inr (action, s') \<Longrightarrow>
     action = ProcessNode_next_action (successor_keys h this)"
  by (auto simp: ProcessNode_post_def Let_def split: option.splits sum.splits)

lemma tool_binding_edge_eval:
  "tool_binding_edge a
     = (js_includes a ''-mcpEdge'' \<or> js_endsWith a ''mcpEdge'' \<or> js_includes a ''-mcp'')"
  by (simp add: tool_binding_edge_def js_includes_sublist js_endsWith_suffix)

text \<open>
  C5. The action \<^verbatim>\<open>ProcessNode.post\<close> returns is the first key of the successor Map, in
  insertion order, that is not a tool-binding edge: every key before it is a tool binding.
  When every key is a tool binding (or there is none), it returns \<open>default\<close>.
\<close>

theorem ProcessNode_post_successor_selection:
  assumes "ProcessNode_post env h this p e s np = Inr (action, s')"
  shows "(\<forall>pre a rest. successor_keys h this = pre @ a # rest
             \<and> (\<forall>k\<in>set pre. tool_binding_edge k) \<and> \<not> tool_binding_edge a \<longrightarrow> action = a)
       \<and> ((\<forall>k\<in>set (successor_keys h this). tool_binding_edge k) \<longrightarrow> action = ''default'')"
  using ProcessNode_post_action[OF assms]
  by (auto simp: next_action_first next_action_default standard_edge_iff)

theorem ProcessNode_post_successor_selection_witness:
  "successor_keys branching_node 0 = [''t1-mcpEdge''] @ ''e2'' # [''e3'']
   \<and> tool_binding_edge ''t1-mcpEdge'' \<and> \<not> tool_binding_edge ''e2''
   \<and> ProcessNode_post sample_env branching_node 0 sample_prep sample_failure sample_state (VRef 1)
       = Inr (''e2'', sample_state\<lparr>lastResponse := Some (RespFailure (er_error sample_failure)
                                                             (er_errorDetails sample_failure)),
                 trackingInfo := Some \<lparr>nodeExecutionTracker = Some [sample_entry]\<rparr>\<rparr>)"
proof -
  have keys: "successor_keys branching_node 0 = [''t1-mcpEdge''] @ ''e2'' # [''e3'']"
    by code_simp
  have b1: "\<forall>k\<in>set [''t1-mcpEdge'']. tool_binding_edge k"
    by (simp add: tool_binding_edge_eval js_endsWith_def)
  have b2: "\<not> tool_binding_edge ''e2''"
    by (simp add: tool_binding_edge_eval js_endsWith_def)
  obtain action s' where
    post: "ProcessNode_post sample_env branching_node 0 sample_prep sample_failure sample_state (VRef 1)
             = Inr (action, s')"
      and s': "s' = sample_state\<lparr>lastResponse := Some (RespFailure (er_error sample_failure)
                                                              (er_errorDetails sample_failure)),
                 trackingInfo := Some \<lparr>nodeExecutionTracker = Some [sample_entry]\<rparr>\<rparr>"
  proof
    show "ProcessNode_post sample_env branching_node 0 sample_prep sample_failure sample_state (VRef 1)
             = Inr (''e2'', sample_state\<lparr>lastResponse := Some (RespFailure (er_error sample_failure)
                                                                   (er_errorDetails sample_failure)),
                 trackingInfo := Some \<lparr>nodeExecutionTracker = Some [sample_entry]\<rparr>\<rparr>)"
      by code_simp
  qed simp
  from ProcessNode_post_successor_selection[OF post] keys b1 b2 have "action = ''e2''"
    by blast
  with post s' keys b1 b2 show ?thesis by auto
qed

section \<open>Message history of the process node\<close>

lemma prep_messages:
  assumes "ProcessNode_prep env h s np = Inr p"
  shows "pr_messages p = \<lparr>role = ''system'', content = ContentText (pr_currentPrompt p)\<rparr>
                          # filter (\<lambda>msg. role msg \<noteq> ''system'') (messages s)"
    and "renderPrompt env (flowId s) (get_prop h np ''id'')
           (js_or (get_prop h (get_prop h np ''properties'') ''excludeModelPrompt'') (VBool False))
           (js_or (get_prop h (get_prop h np ''properties'') ''excludeStartNodePrompt'') (VBool False))
          = Inr (pr_currentPrompt p)"
  using assms
  by (auto simp: ProcessNode_prep_def Let_def split: if_splits sum.splits)

lemma prep_returns:
  assumes "truthy (get_prop h np ''id'')" and "truthy (flowId s)"
    and "truthy (get_prop h (get_prop h np ''properties'') ''boundModel'')"
    and "renderPrompt env (flowId s) (get_prop h np ''id'')
           (js_or (get_prop h (get_prop h np ''properties'') ''excludeModelPrompt'') (VBool False))
           (js_or (get_prop h (get_prop h np ''properties'') ''excludeStartNodePrompt'') (VBool False))
          = Inr prompt"
    and "resolve_tools env h s (get_prop h np ''properties'') = Inr tools"
  shows "\<exists>p. ProcessNode_prep env h s np = Inr p \<and> pr_currentPrompt p = prompt"
  using assms by (simp add: ProcessNode_prep_def Let_def)

lemma system_messages_prep:
  "system_messages (\<lparr>role = ''system'', content = c\<rparr> # filter (\<lambda>msg. role msg \<noteq> ''system'') ms @ extra)
     = \<lparr>role = ''system'', content = c\<rparr> # system_messages extra"
  by (induction ms) (auto simp: system_messages_def)

lemma post_messages:
  "er_messages e = Some (m # ms) \<Longrightarrow> messages (post_state (ProcessNode_post env h this p e s np)) = m # ms"
  by (auto simp: ProcessNode_post_def post_state_def Let_def push_tracker_def
           split: option.splits sum.splits list.splits)

lemma ProcessNode_run_success:
  assumes p: "ProcessNode_prep env h s np = Inr p"
    and t: "prepared_tools env p = Inr tools"
    and c: "callModel env (model_request_of h p np tools) = Inr (ModelSuccess v)"
  shows "ProcessNode_run env h this s np
           = ProcessNode_post env h this p
               \<lparr>er_success = True,
                er_content = Some (case mv_content v of None \<Rightarrow> [] | Some c \<Rightarrow> c),
                er_messages = mv_messages v,
                er_fullResponse = mv_fullResponse v,
                er_toolCalls = mv_toolCalls v,
                er_error = None, er_errorDetails = None\<rparr> s np"
  using p t c
  by (simp add: ProcessNode_run_def BaseNode_run_def execWrapper_def ProcessNode_execCore_def
                ProcessNode_execCore_try_def)

text \<open>
  C6. Whenever \<^verbatim>\<open>ProcessNode.prep\<close> returns, its message list is one system message
  holding the prompt just rendered, followed by the non-system messages of the shared state
  in their order, so it has exactly one system message. When the step commits this list,
  that is when the model is called and its reply hands back the messages of the request,
  possibly followed by non-system messages of the model and tool round trip, the messages
  of the shared state after \<^verbatim>\<open>run\<close> (prep, execCore and post of the process node) are
  that list and have exactly one system message. prep returns when the node id, the flow
  id and the bound model are present, the renderer returns and the tools resolve; otherwise
  it throws.
\<close>

theorem ProcessNode_prep_one_system_message:
  "(\<forall>p. ProcessNode_prep env h s np = Inr p \<longrightarrow>
       pr_messages p = \<lparr>role = ''system'', content = ContentText (pr_currentPrompt p)\<rparr>
                          # filter (\<lambda>msg. role msg \<noteq> ''system'') (messages s)
     \<and> renderPrompt env (flowId s) (get_prop h np ''id'')
           (js_or (get_prop h (get_prop h np ''properties'') ''excludeModelPrompt'') (VBool False))
           (js_or (get_prop h (get_prop h np ''properties'') ''excludeStartNodePrompt'') (VBool False))
          = Inr (pr_currentPrompt p)
     \<and> length (system_messages (pr_messages p)) = 1
     \<and> (\<forall>tools v extra this.
            prepared_tools env p = Inr tools
          \<and> callModel env (model_request_of h p np tools) = Inr (ModelSuccess v)
          \<and> mv_messages v = Some (mr_messages (model_request_of h p np tools) @ extra)
          \<and> system_messages extra = []
          \<longrightarrow> messages (post_state (ProcessNode_run env h this s np)) = pr_messages p @ extra
            \<and> length (system_messages (messages (post_state (ProcessNode_run env h this s np)))) = 1))
   \<and> (\<forall>prompt tools.
         truthy (get_prop h np ''id'') \<and> truthy (flowId s)
       \<and> truthy (get_prop h (get_prop h np ''properties'') ''boundModel'')
       \<and> renderPrompt env (flowId s) (get_prop h np ''id'')
           (js_or (get_prop h (get_prop h np ''properties'') ''excludeModelPrompt'') (VBool False))
           (js_or (get_prop h (get_prop h np ''properties'') ''excludeStartNodePrompt'') (VBool False))
          = Inr prompt
       \<and> resolve_tools env h s (get_prop h np ''properties'') = Inr tools
       \<longrightarrow> (\<exists>p. ProcessNode_prep env h s np = Inr p \<and> pr_currentPrompt p = prompt))"
proof (intro conjI allI impI)
  fix p assume p: "ProcessNode_prep env h s np = Inr p"
  show m: "pr_messages p = \<lparr>role = ''system'', content = ContentText (pr_currentPrompt p)\<rparr>
                          # filter (\<lambda>msg. role msg \<noteq> ''system'') (messages s)"
    by (rule prep_messages(1)[OF p])
  show "renderPrompt env (flowId s) (get_prop h np ''id'')
           (js_or (get_prop h (get_prop h np ''properties'') ''excludeModelPrompt'') (VBool False))
           (js_or (get_prop h (get_prop h np ''properties'') ''excludeStartNodePrompt'') (VBool False))
          = Inr (pr_currentPrompt p)"
    by (rule prep_messages(2)[OF p])
  from system_messages_prep[of _ "messages s" "[]"] m
  show "length (system_messages (pr_messages p)) = 1"
    by (simp add: system_messages_def)
  fix tools :: "val list option" and v :: model_value and extra :: "message list" and this :: addr
  assume c: "prepared_tools env p = Inr tools
          \<and> callModel env (model_request_of h p np tools) = Inr (ModelSuccess v)
          \<and> mv_messages v = Some (mr_messages (model_request_of h p np tools) @ extra)
          \<and> system_messages extra = []"
  then have t: "prepared_tools env p = Inr tools"
    and k: "callModel env (model_request_of h p np tools) = Inr (ModelSuccess v)"
    and r: "mv_messages v = Some (pr_messages p @ extra)"
    and x: "system_messages extra = []"
    by (simp_all add: model_request_of_def)
  from r m have "mv_messages v
      = Some (\<lparr>role = ''system'', content = ContentText (pr_currentPrompt p)\<rparr>
               # (filter (\<lambda>msg. role msg \<noteq> ''system'') (messages s) @ extra))"
    by simp
  then have "messages (post_state (ProcessNode_run env h this s np))
      = \<lparr>role = ''system'', content = ContentText (pr_currentPrompt p)\<rparr>
               # (filter (\<lambda>msg. role msg \<noteq> ''system'') (messages s) @ extra)"
    unfolding ProcessNode_run_success[OF p t k] by (intro post_messages) simp
  with m show e: "messages (post_state (ProcessNode_run env h this s np)) = pr_messages p @ extra"
    by simp
  show "length (system_messages (messages (post_state (ProcessNode_run env h this s np)))) = 1"
    unfolding e using m x system_messages_prep[of "ContentText (pr_currentPrompt p)" "messages s" extra]
    by simp
next
  fix prompt tools
  assume "truthy (get_prop h np ''id'') \<and> truthy (flowId s)
       \<and> truthy (get_prop h (get_prop h np ''properties'') ''boundModel'')
       \<and> renderPrompt env (flowId s) (get_prop h np ''id'')
           (js_or (get_prop h (get_prop h np ''properties'') ''excludeModelPrompt'') (VBool False))
           (js_or (get_prop h (get_prop h np ''properties'') ''excludeStartNodePrompt'') (VBool False))
          = Inr prompt
       \<and> resolve_tools env h s (get_prop h np ''properties'') = Inr tools"
  then show "\<exists>p. ProcessNode_prep env h s np = Inr p \<and> pr_currentPrompt p = prompt"
    using prep_returns by blast
qed

theorem ProcessNode_prep_one_system_message_witness:
  "ProcessNode_prep sample_env branching_node sample_state (VRef 1) = Inr sample_prep
   \<and> system_messages (messages sample_state) = [\<lparr>role = ''system'', content = ContentText ''old prompt''\<rparr>]
   \<and> pr_messages sample_prep = [\<lparr>role = ''system'', content = ContentText ''You are helpful''\<rparr>,
                                 \<lparr>role = ''user'', content = ContentText ''hi''\<rparr>,
                                 \<lparr>role = ''assistant'', content = ContentText ''done''\<rparr>]
   \<and> length (system_messages (pr_messages sample_prep)) = 1
   \<and> prepared_tools sample_env sample_prep = Inr None
   \<and> callModel sample_env (model_request_of branching_node sample_prep (VRef 1) None)
       = Inr (ModelSuccess sample_reply)
   \<and> ProcessNode_execCore sample_env branching_node sample_prep (VRef 1) = Inr sample_success
   \<and> messages (post_state (ProcessNode_run sample_env branching_node 0 sample_state (VRef 1)))
       = [\<lparr>role = ''system'', content = ContentText ''You are helpful''\<rparr>,
          \<lparr>role = ''user'', content = ContentText ''hi''\<rparr>,
          \<lparr>role = ''assistant'', content = ContentText ''done''\<rparr>,
          \<lparr>role = ''assistant'', content = ContentText ''ok''\<rparr>]
   \<and> length (system_messages (messages (post_state
        (ProcessNode_run sample_env branching_node 0 sample_state (VRef 1))))) = 1"
proof -
  have prep: "ProcessNode_prep sample_env branching_node sample_state (VRef 1) = Inr sample_prep"
    by code_simp
  have old: "system_messages (messages sample_state)
               = [\<lparr>role = ''system'', content = ContentText ''old prompt''\<rparr>]"
    by code_simp
  have tools: "prepared_tools sample_env sample_prep = Inr None"
    by code_simp
  have reply: "callModel sample_env (model_request_of branching_node sample_prep (VRef 1) None)
       = Inr (ModelSuccess sample_reply)"
    by code_simp
  have exec: "ProcessNode_execCore sample_env branching_node sample_prep (VRef 1) = Inr sample_success"
    by code_simp
  have list: "mv_messages sample_reply
                = Some (mr_messages (model_request_of branching_node sample_prep (VRef 1) None)
                         @ [\<lparr>role = ''assistant'', content = ContentText ''ok''\<rparr>])"
    by code_simp
  have extra: "system_messages [\<lparr>role = ''assistant'', content = ContentText ''ok''\<rparr>] = []"
    by code_simp
  have msgs: "pr_messages sample_prep = [\<lparr>role = ''system'', content = ContentText ''You are helpful''\<rparr>,
                                 \<lparr>role = ''user'', content = ContentText ''hi''\<rparr>,
                                 \<lparr>role = ''assistant'', content = ContentText ''done''\<rparr>]"
    by code_simp
  from ProcessNode_prep_one_system_message[of sample_env branching_node sample_state "VRef 1"]
    prep tools reply list extra
  have "length (system_messages (pr_messages sample_prep)) = 1
      \<and> messages (post_state (ProcessNode_run sample_env branching_node 0 sample_state (VRef 1)))
          = pr_messages sample_prep @ [\<lparr>role = ''assistant'', content = ContentText ''ok''\<rparr>]
      \<and> length (system_messages (messages (post_state
        (ProcessNode_run sample_env branching_node 0 sample_state (VRef 1))))) = 1"
    by blast
  with prep old tools reply exec msgs show ?thesis by (simp add: system_messages_def)
qed

text \<open>
  post replaces the messages only by a list that is not empty: a step whose model hands
  back no list leaves the messages of the shared state as they were.
\<close>

lemma post_keeps_messages:
  "er_messages e = None \<or> er_messages e = Some [] \<Longrightarrow>
     messages (post_state (ProcessNode_post env h this p e s np)) = messages s"
  by (auto simp: ProcessNode_post_def post_state_def Let_def push_tracker_def
           split: option.splits sum.splits list.splits)

lemma ProcessNode_run_no_list:
  assumes "ProcessNode_prep env h s np = Inr p"
    and "prepared_tools env p = Inr tools"
    and "callModel env (model_request_of h p np tools) = Inr (ModelSuccess v)"
    and "mv_messages v = None \<or> mv_messages v = Some []"
  shows "messages (post_state (ProcessNode_run env h this s np)) = messages s"
  using assms(4) by (simp add: ProcessNode_run_success[OF assms(1,2,3)] post_keeps_messages)

section \<open>A recoverable failure of the process node\<close>

lemma execCore_failure_shape:
  assumes "ProcessNode_execCore env h p np = Inr e" and "\<not> er_success e"
  shows "er_messages e = None \<and> er_content e = None \<and> er_error e \<noteq> None \<and> er_errorDetails e \<noteq> None"
  using assms
  by (auto simp: ProcessNode_execCore_def ProcessNode_execCore_try_def
           split: sum.splits if_splits model_result.splits)

text \<open>
  C10, as amended. When \<^verbatim>\<open>execCore\<close> returns a failure result, post stores the failure
  object as the last response and leaves the messages as they were (a failure result
  carries no message list), whether or not it goes on to throw. With the tracker an array
  and the allowed tools absent or an array, post returns, having appended one ProcessNode
  entry to the tracker and changed nothing else. With tracking information whose tracker is
  not an array, the guard \<^verbatim>\<open>Array.isArray\<close> skips the entry: post returns the next action
  and has changed the last response only.
\<close>

theorem ProcessNode_post_recoverable_failure:
  assumes "ProcessNode_execCore env h p np = Inr e" and "\<not> er_success e"
  shows "lastResponse (post_state (ProcessNode_post env h this p e s np))
           = Some (RespFailure (er_error e) (er_errorDetails e))
       \<and> messages (post_state (ProcessNode_post env h this p e s np)) = messages s
       \<and> (\<forall>ti t joined. trackingInfo s = Some ti \<and> nodeExecutionTracker ti = Some t
             \<and> js_join h (get_prop h (get_prop h np ''properties'') ''allowedTools'') '', '' = Inr joined
           \<longrightarrow> (\<exists>action entry.
                 ProcessNode_post env h this p e s np
                   = Inr (action, s\<lparr>lastResponse := Some (RespFailure (er_error e) (er_errorDetails e)),
                                     trackingInfo := Some (ti\<lparr>nodeExecutionTracker := Some (t @ [entry])\<rparr>)\<rparr>)
                 \<and> nodeType entry = ''ProcessNode''))
       \<and> (\<forall>ti. trackingInfo s = Some ti \<and> nodeExecutionTracker ti = None
           \<longrightarrow> ProcessNode_post env h this p e s np
                 = Inr (ProcessNode_next_action (successor_keys h this),
                        s\<lparr>lastResponse := Some (RespFailure (er_error e) (er_errorDetails e))\<rparr>))"
proof -
  from execCore_failure_shape[OF assms] have m: "er_messages e = None" by simp
  show ?thesis
    using assms(2) m
    by (auto simp: ProcessNode_post_def post_state_def Let_def push_tracker_def
             split: option.splits sum.splits)
qed

theorem ProcessNode_post_recoverable_failure_witness:
  "ProcessNode_execCore (sample_env\<lparr>prepareTools := (\<lambda>ts. HFailure ''none'')\<rparr>) branching_node
       (sample_prep\<lparr>pr_availableTools := [VStr ''search'']\<rparr>) (VRef 1) = Inr sample_failure
   \<and> \<not> er_success sample_failure
   \<and> ProcessNode_post (sample_env\<lparr>prepareTools := (\<lambda>ts. HFailure ''none'')\<rparr>) branching_node 0
       (sample_prep\<lparr>pr_availableTools := [VStr ''search'']\<rparr>) sample_failure sample_state (VRef 1)
      = Inr (''e2'', sample_state\<lparr>lastResponse := Some (RespFailure (er_error sample_failure)
                                                             (er_errorDetails sample_failure)),
                 trackingInfo := Some \<lparr>nodeExecutionTracker = Some [sample_entry]\<rparr>\<rparr>)
   \<and> messages (post_state (ProcessNode_post (sample_env\<lparr>prepareTools := (\<lambda>ts. HFailure ''none'')\<rparr>)
        branching_node 0 (sample_prep\<lparr>pr_availableTools := [VStr ''search'']\<rparr>) sample_failure
        sample_state (VRef 1))) = messages sample_state"
proof -
  have exec: "ProcessNode_execCore (sample_env\<lparr>prepareTools := (\<lambda>ts. HFailure ''none'')\<rparr>) branching_node
       (sample_prep\<lparr>pr_availableTools := [VStr ''search'']\<rparr>) (VRef 1) = Inr sample_failure"
    by code_simp
  have fail: "\<not> er_success sample_failure"
    by code_simp
  have post: "ProcessNode_post (sample_env\<lparr>prepareTools := (\<lambda>ts. HFailure ''none'')\<rparr>) branching_node 0
       (sample_prep\<lparr>pr_availableTools := [VStr ''search'']\<rparr>) sample_failure sample_state (VRef 1)
      = Inr (''e2'', sample_state\<lparr>lastResponse := Some (RespFailure (er_error sample_failure)
                                                             (er_errorDetails sample_failure)),
                 trackingInfo := Some \<lparr>nodeExecutionTracker = Some [sample_entry]\<rparr>\<rparr>)"
    by code_simp
  from ProcessNode_post_recoverable_failure[OF exec fail, of 0 sample_state] exec fail post
  show ?thesis by simp
qed

text \<open>
  The claim as it was stated fails where the tracker is not an array: for the failure result
  of a step whose tools could not be prepared, post stores the failure object, appends no
  entry and returns the next action.
\<close>

theorem ProcessNode_post_no_tracker_counterexample:
  "ProcessNode_execCore (sample_env\<lparr>prepareTools := (\<lambda>ts. HFailure ''none'')\<rparr>) branching_node
       (sample_prep\<lparr>pr_availableTools := [VStr ''search'']\<rparr>) (VRef 1) = Inr sample_failure
   \<and> er_success sample_failure = False
   \<and> nodeExecutionTracker (the (trackingInfo untracked_state)) = None
   \<and> ProcessNode_post (sample_env\<lparr>prepareTools := (\<lambda>ts. HFailure ''none'')\<rparr>) branching_node 0
       (sample_prep\<lparr>pr_availableTools := [VStr ''search'']\<rparr>) sample_failure untracked_state (VRef 1)
      = Inr (''e2'', untracked_state\<lparr>lastResponse := Some (RespFailure (er_error sample_failure)
                                                             (er_errorDetails sample_failure))\<rparr>)"
  by code_simp

section \<open>A failure of the model invocation\<close>

lemma map_of_Map_set: "map_of (Map_set m k v) k' = (if k' = k then Some v else map_of m k')"
  by (induction m) auto

lemma map_of_obj_spread:
  "map_of (obj_spread obj extra) k
     = (case map_of (rev extra) k of Some v \<Rightarrow> Some v | None \<Rightarrow> map_of obj k)"
proof (induction extra arbitrary: obj)
  case Nil
  then show ?case by (simp add: obj_spread_def)
next
  case (Cons x xs)
  obtain k' v' where x: "x = (k', v')" by (cases x)
  have "obj_spread obj (x # xs) = obj_spread (Map_set obj k' v') xs"
    by (simp add: obj_spread_def x)
  then show ?case
    using Cons.IH[of "Map_set obj k' v'"]
    by (simp add: x map_of_Map_set map_add_def split: option.splits)
qed

lemma model_error_carries:
  "\<exists>d. model_error_of pe = ModelError (''Model execution failed: '' @ pe_message pe) d
       \<and> map_of d ''message'' = Some (provided pe ''message'' (VStr (pe_message pe)))
       \<and> map_of d ''type'' = Some (provided pe ''type'' (VStr (pe_type pe)))
       \<and> map_of d ''code'' = Some (provided pe ''code'' (pe_code pe))"
  by (auto simp: model_error_of_def Let_def map_of_obj_spread provided_def split: option.splits)

lemma execCore_model_failure:
  assumes "prepared_tools env p = Inr tools"
    and "callModel env (model_request_of h p np tools) = Inr (ModelFailure pe)"
  shows "ProcessNode_execCore env h p np = Inl (model_error_of pe)"
  using assms
  by (simp add: ProcessNode_execCore_def ProcessNode_execCore_try_def model_error_of_def
                is_abort_error_def Let_def)

lemma ProcessNode_run_model_failure:
  assumes "ProcessNode_prep env h s np = Inr p"
    and "prepared_tools env p = Inr tools"
    and "callModel env (model_request_of h p np tools) = Inr (ModelFailure pe)"
  shows "ProcessNode_run env h this s np = Inl (model_error_of pe, s)"
  using assms execCore_model_failure[OF assms(2,3)]
  by (simp add: ProcessNode_run_def BaseNode_run_def execWrapper_def)

lemma loop_arrives_outcome:
  "loop_arrives env this fP nP m cfg0 n cfg \<Longrightarrow>
     orch_loop m env (fst cfg0) this fP nP (fst (snd cfg0)) (snd (snd cfg0))
       = orch_loop n env (fst cfg) this fP nP (fst (snd cfg)) (snd (snd cfg))"
  by (induction rule: loop_arrives.induct) (simp_all add: orch_step_def)

lemma run_arrives_outcome:
  "run_arrives env this fP nP m hf sf n (h, a, s) \<Longrightarrow>
     orchestrate m env hf this sf fP nP = orch_loop n env h this fP nP a s"
  by (auto simp: run_arrives_def orchestrate_def orchestrate_with_def dest: loop_arrives_outcome)

lemma Flow_run_top_outcome:
  assumes "node_at hf this = Some fn"
    and "get_prop_strict hf (flow_params fn) ''nodeParams'' = Inr nP"
    and "run_arrives env this (flow_params fn) nP m hf sf n (h, a, s)"
    and "orch_loop n env h this (flow_params fn) nP a s = Some (Inl x)"
  shows "Flow_run_top m env hf this sf = Some (Inl x)"
  using assms run_arrives_outcome[OF assms(3)]
  by (simp add: Flow_run_top_def Flow_run_def orchestrate_def)

lemma executeFlow_propagates:
  assumes "find (\<lambda>flow. rf_name flow = name) flows = Some reactFlow"
    and "convert h reactFlow = Some (Inr (h1, pocketFlow))"
    and "Flow_run_top n env h1 pocketFlow
           (initialState\<lparr>flowName := VStr name, startTime := now_ms env, top_nodeExecutionTracker := Some []\<rparr>)
         = Some (Inl (e, h2, s2))"
  shows "executeFlow n env h flows name initialState = Some (Inl e)"
  using assms by (simp add: executeFlow_def Let_def)

text \<open>
  C2. When the loop is at a process node whose prep returns and whose tools prepare, and the
  model handler returns a failure, then \<^verbatim>\<open>execCore\<close> throws the model error made from
  it: the message is the provider's behind a fixed prefix, and the details hold the
  provider's message, type and code. The pass of the loop ends there with that error: the
  store is the one in which the parameters of the node were set (no successor was looked up
  or cloned) and the shared state is the one the node was entered with (no tracker entry,
  of this node or a later one, was added). Every run of \<^verbatim>\<open>orchestrate\<close>,
  \<^verbatim>\<open>Flow.run\<close> and \<^verbatim>\<open>executeFlow\<close> that arrives at this node ends with this error.
\<close>

theorem model_failure_aborts_run:
  assumes flow: "node_at h this = Some flow"
    and cur: "node_at h currentNode = Some c"
    and params: "effective_params h (flow_params flow) flowParams nodeParams (flow_params c)
                   = Inr (paramsToSet, own)"
    and set: "setParams h currentNode paramsToSet own = Some h1"
    and c1: "node_at h1 currentNode = Some c1"
    and kind: "kind c1 = ProcessNode"
    and prep: "ProcessNode_prep env h1 s (node_params c1) = Inr p"
    and tools: "prepared_tools env p = Inr tools"
    and model: "callModel env (model_request_of h1 p (node_params c1) tools) = Inr (ModelFailure pe)"
  shows "ProcessNode_execCore env h1 p (node_params c1) = Inl (model_error_of pe)
       \<and> (\<exists>d. model_error_of pe = ModelError (''Model execution failed: '' @ pe_message pe) d
              \<and> map_of d ''message'' = Some (provided pe ''message'' (VStr (pe_message pe)))
              \<and> map_of d ''type'' = Some (provided pe ''type'' (VStr (pe_type pe)))
              \<and> map_of d ''code'' = Some (provided pe ''code'' (pe_code pe)))
       \<and> orch_visit (orch_loop n) env h this flowParams nodeParams currentNode s
           = Some (Done (Inl (model_error_of pe, h1, s)))
       \<and> (\<forall>m hf sf. run_arrives env this flowParams nodeParams m hf sf (Suc n) (h, currentNode, s)
            \<longrightarrow> orchestrate m env hf this sf flowParams nodeParams
                  = Some (Inl (model_error_of pe, h1, s)))
       \<and> (\<forall>m hf sf fn. node_at hf this = Some fn \<and> flow_params fn = flowParams
              \<and> get_prop_strict hf flowParams ''nodeParams'' = Inr nodeParams
              \<and> run_arrives env this flowParams nodeParams m hf sf (Suc n) (h, currentNode, s)
            \<longrightarrow> Flow_run_top m env hf this sf = Some (Inl (model_error_of pe, h1, s)))
       \<and> (\<forall>m h0 hf flows name reactFlow initialState fn.
              find (\<lambda>flow. rf_name flow = name) flows = Some reactFlow
              \<and> convert h0 reactFlow = Some (Inr (hf, this))
              \<and> node_at hf this = Some fn \<and> flow_params fn = flowParams
              \<and> get_prop_strict hf flowParams ''nodeParams'' = Inr nodeParams
              \<and> run_arrives env this flowParams nodeParams m hf
                   (initialState\<lparr>flowName := VStr name, startTime := now_ms env,
                                  top_nodeExecutionTracker := Some []\<rparr>)
                   (Suc n) (h, currentNode, s)
            \<longrightarrow> executeFlow m env h0 flows name initialState = Some (Inl (model_error_of pe)))"
proof -
  have run: "node_run (orch_loop n) env h1 currentNode s = Some (Inl (model_error_of pe, h1, s))"
    using c1 kind ProcessNode_run_model_failure[OF prep tools model]
    by (simp add: node_run_def with_heap_def)
  have visit: "orch_visit (orch_loop n) env h this flowParams nodeParams currentNode s
                 = Some (Done (Inl (model_error_of pe, h1, s)))"
    using flow cur params set run by (simp add: orch_visit_def)
  then have loop: "orch_loop (Suc n) env h this flowParams nodeParams currentNode s
                     = Some (Inl (model_error_of pe, h1, s))"
    by (simp add: orch_step_def)
  have orch: "\<forall>m hf sf. run_arrives env this flowParams nodeParams m hf sf (Suc n) (h, currentNode, s)
            \<longrightarrow> orchestrate m env hf this sf flowParams nodeParams
                  = Some (Inl (model_error_of pe, h1, s))"
    using loop by (auto dest: run_arrives_outcome)
  have top: "\<forall>m hf sf fn. node_at hf this = Some fn \<and> flow_params fn = flowParams
              \<and> get_prop_strict hf flowParams ''nodeParams'' = Inr nodeParams
              \<and> run_arrives env this flowParams nodeParams m hf sf (Suc n) (h, currentNode, s)
            \<longrightarrow> Flow_run_top m env hf this sf = Some (Inl (model_error_of pe, h1, s))"
    using loop by (auto dest: Flow_run_top_outcome)
  have exec: "\<forall>m h0 hf flows name reactFlow initialState fn.
              find (\<lambda>flow. rf_name flow = name) flows = Some reactFlow
              \<and> convert h0 reactFlow = Some (Inr (hf, this))
              \<and> node_at hf this = Some fn \<and> flow_params fn = flowParams
              \<and> get_prop_strict hf flowParams ''nodeParams'' = Inr nodeParams
              \<and> run_arrives env this flowParams nodeParams m hf
                   (initialState\<lparr>flowName := VStr name, startTime := now_ms env,
                                  top_nodeExecutionTracker := Some []\<rparr>)
                   (Suc n) (h, currentNode, s)
            \<longrightarrow> executeFlow m env h0 flows name initialState = Some (Inl (model_error_of pe))"
    using top by (auto dest!: executeFlow_propagates)
  from execCore_model_failure[OF tools model] model_error_carries[of pe] visit orch top exec
  show ?thesis by blast
qed


theorem model_failure_aborts_run_witness:
  "resume_entry failing_graph 2 tracked_state = Some (failing_entry, 3)
   \<and> orchestrate 1 sample_env failing_graph 2 tracked_state (VRef 5) VUndef
       = Some (Inl (model_error_of quota_error,
                    set_node failing_entry 3
                      \<lparr>kind = ProcessNode, flow_params = VRef 5, node_params = VRef 11, successors = 4\<rparr>,
                    tracked_state))
   \<and> model_error_of quota_error
       = ModelError ''Model execution failed: quota exceeded''
           [(''message'', VStr ''quota exceeded''), (''type'', VStr ''api''), (''code'', VStr ''429''),
            (''param'', VUndef), (''status'', VUndef)]
   \<and> executeFlow 10 sample_env two_models [chain_flow] ''chain'' sample_state
       = Some (Inl (model_error_of quota_error))
   \<and> aborted_tracker (Flow_run_top 10 sample_env (fst (converted (convert two_models chain_flow)))
                         (snd (converted (convert two_models chain_flow))) sample_state)
       = Some [sample_entry\<lparr>nodeId := VStr ''a''\<rparr>]"
proof -
  let ?h1 = "set_node failing_entry 3
               \<lparr>kind = ProcessNode, flow_params = VRef 5, node_params = VRef 11, successors = 4\<rparr>"
  have flow: "node_at failing_entry 2
                = Some \<lparr>kind = Flow 0, flow_params = VRef 5, node_params = VRef 6, successors = 2\<rparr>"
    by code_simp
  have cur: "node_at failing_entry 3
               = Some \<lparr>kind = ProcessNode, flow_params = VRef 9, node_params = VRef 11, successors = 4\<rparr>"
    by code_simp
  have params: "effective_params failing_entry
                  (flow_params \<lparr>kind = Flow 0, flow_params = VRef 5, node_params = VRef 6, successors = 2\<rparr>)
                  (VRef 5) VUndef
                  (flow_params \<lparr>kind = ProcessNode, flow_params = VRef 9, node_params = VRef 11, successors = 4\<rparr>)
                = Inr (VRef 5, VUndef)"
    by code_simp
  have set: "setParams failing_entry 3 (VRef 5) VUndef = Some ?h1"
    by code_simp
  have c1: "node_at ?h1 3
              = Some \<lparr>kind = ProcessNode, flow_params = VRef 5, node_params = VRef 11, successors = 4\<rparr>"
    by code_simp
  have kind: "kind \<lparr>kind = ProcessNode, flow_params = VRef 5, node_params = VRef 11, successors = 4\<rparr>
                = ProcessNode"
    by simp
  have prep: "ProcessNode_prep sample_env ?h1 tracked_state
                (node_params \<lparr>kind = ProcessNode, flow_params = VRef 5, node_params = VRef 11, successors = 4\<rparr>)
              = Inr failing_prep"
    by code_simp
  have tools: "prepared_tools sample_env failing_prep = Inr None"
    by code_simp
  have model: "callModel sample_env (model_request_of ?h1 failing_prep
                  (node_params \<lparr>kind = ProcessNode, flow_params = VRef 5, node_params = VRef 11, successors = 4\<rparr>)
                  None)
               = Inr (ModelFailure quota_error)"
    by code_simp
  have entry: "resume_entry failing_graph 2 tracked_state = Some (failing_entry, 3)"
    by code_simp
  then have arr: "run_arrives sample_env 2 (VRef 5) VUndef (Suc 0) failing_graph tracked_state
                    (Suc 0) (failing_entry, 3, tracked_state)"
    by (auto simp: run_arrives_def intro: loop_arrives.here)
  note main = model_failure_aborts_run[OF flow cur params set c1 kind prep tools model, of 0]
  from main arr have orch: "orchestrate 1 sample_env failing_graph 2 tracked_state (VRef 5) VUndef
       = Some (Inl (model_error_of quota_error, ?h1, tracked_state))"
    by (metis One_nat_def)
  have err: "model_error_of quota_error
       = ModelError ''Model execution failed: quota exceeded''
           [(''message'', VStr ''quota exceeded''), (''type'', VStr ''api''), (''code'', VStr ''429''),
            (''param'', VUndef), (''status'', VUndef)]"
    by code_simp
  have exec: "executeFlow 10 sample_env two_models [chain_flow] ''chain'' sample_state
       = Some (Inl (model_error_of quota_error))"
    by code_simp
  have tr: "aborted_tracker (Flow_run_top 10 sample_env (fst (converted (convert two_models chain_flow)))
                         (snd (converted (convert two_models chain_flow))) sample_state)
       = Some [sample_entry\<lparr>nodeId := VStr ''a''\<rparr>]"
    by code_simp
  from entry orch err exec tr show ?thesis by simp
qed

section \<open>The finish node\<close>

lemma FinishNode_post_text:
  assumes msgs: "fr_messages p = ms @ [\<lparr>role = ''assistant'', content = ContentText t\<rparr>]"
    and t: "t \<noteq> []"
    and tr: "ENABLE_EXECUTION_TRACKER env \<longrightarrow> trackingInfo s \<noteq> None"
  shows "\<exists>s'. FinishNode_post env h this p e s np
               = Inr (case successor_keys h this of k # ks \<Rightarrow> k | [] \<Rightarrow> FINAL_RESPONSE_ACTION env, s')
             \<and> lastResponse s' = Some (RespText t) \<and> messages s' = messages s
             \<and> top_nodeExecutionTracker s' = top_nodeExecutionTracker s"
proof -
  obtain m ms' where ne: "ms @ [\<lparr>role = ''assistant'', content = ContentText t\<rparr>] = m # ms'"
    by (cases ms) auto
  have l: "last (m # ms') = \<lparr>role = ''assistant'', content = ContentText t\<rparr>"
    using ne[symmetric] by simp
  show ?thesis
    using tr t
    by (cases "trackingInfo s")
       (auto simp: FinishNode_post_def msgs ne l Let_def content_truthy_def push_tracker_def
             simp del: last.simps split: list.splits option.splits)
qed

lemma FinishNode_run_text:
  assumes msgs: "messages s = ms @ [\<lparr>role = ''assistant'', content = ContentText t\<rparr>]"
    and t: "t \<noteq> []"
    and tr: "ENABLE_EXECUTION_TRACKER env \<longrightarrow> trackingInfo s \<noteq> None"
  shows "\<exists>s'. FinishNode_run env h this s np
               = Inr (case successor_keys h this of k # ks \<Rightarrow> k | [] \<Rightarrow> FINAL_RESPONSE_ACTION env, s')
             \<and> lastResponse s' = Some (RespText t) \<and> messages s' = messages s
             \<and> top_nodeExecutionTracker s' = top_nodeExecutionTracker s"
  using FinishNode_post_text[of "\<lparr>fr_nodeId = js_or (get_prop h np ''id'') (VStr []), fr_nodeType = ''finish'',
          fr_messages = messages s\<rparr>" ms t env s h this "\<lparr>fe_success = True\<rparr>" np] assms
  by (simp add: FinishNode_run_def BaseNode_run_def FinishNode_prep_def FinishNode_execCore_def execWrapper_def)

lemma executeFlow_completes:
  assumes "find (\<lambda>flow. rf_name flow = name) flows = Some reactFlow"
    and "convert h reactFlow = Some (Inr (h1, pocketFlow))"
    and "Flow_run_top n env h1 pocketFlow
           (initialState\<lparr>flowName := VStr name, startTime := now_ms env, top_nodeExecutionTracker := Some []\<rparr>)
         = Some (Inr (a, h2, s2))"
  shows "\<exists>r. executeFlow n env h flows name initialState = Some (Inr r)
           \<and> result r = response_or (lastResponse s2) (RespText ''Flow execution completed'')"
  using assms by (simp add: executeFlow_def Let_def)

lemma Flow_run_top_completes:
  assumes "node_at hf this = Some fn"
    and "get_prop_strict hf (flow_params fn) ''nodeParams'' = Inr nP"
    and "run_arrives env this (flow_params fn) nP m hf sf n (h, a, s)"
    and "orch_loop n env h this (flow_params fn) nP a s = Some (Inr (h', s'))"
  shows "Flow_run_top m env hf this sf = Some (Inr (''default'', h', s'))"
  using assms run_arrives_outcome[OF assms(3)]
  by (simp add: Flow_run_top_def Flow_run_def orchestrate_def Flow_post_def with_heap_def DEFAULT_ACTION_def)

text \<open>
  C7, as amended. When the messages the finish node is given end with an assistant message
  whose content is a non-empty text, post stores that text as the last response, and it
  returns the first key of the successor Map when there is one and the final-response
  token when there is none. In a loop that is at such a finish node without outgoing edges
  the pass completes the run, with the current node id cleared, and every run of
  \<^verbatim>\<open>executeFlow\<close> that arrives there returns that text as its result. (The tracker entry,
  when the feature is on, needs the tracking record of the state; the two reserved tokens
  are different.)
\<close>

theorem FinishNode_stores_last_text:
  assumes flow: "node_at h this = Some flow"
    and cur: "node_at h currentNode = Some c"
    and params: "effective_params h (flow_params flow) flowParams nodeParams (flow_params c)
                   = Inr (paramsToSet, own)"
    and set: "setParams h currentNode paramsToSet own = Some h1"
    and c1: "node_at h1 currentNode = Some c1"
    and kind: "kind c1 = FinishNode"
    and msgs: "messages s = ms @ [\<lparr>role = ''assistant'', content = ContentText t\<rparr>]"
    and t: "t \<noteq> []"
    and tr: "ENABLE_EXECUTION_TRACKER env \<longrightarrow> trackingInfo s \<noteq> None"
    and tokens: "FINAL_RESPONSE_ACTION env \<noteq> STAY_ON_NODE_ACTION env"
  shows "(\<forall>p e np. fr_messages p = messages s \<longrightarrow>
            (\<exists>s'. FinishNode_post env h1 currentNode p e s np
                    = Inr (case successor_keys h1 currentNode of
                             k # ks \<Rightarrow> k | [] \<Rightarrow> FINAL_RESPONSE_ACTION env, s')
                  \<and> lastResponse s' = Some (RespText t)))
       \<and> (map_at h1 (successors c1) = Some [] \<longrightarrow>
            (\<exists>s'. orch_visit (orch_loop n) env h this flowParams nodeParams currentNode s
                     = Some (Done (Inr (h1, s')))
                  \<and> lastResponse s' = Some (RespText t) \<and> currentNodeId s' = VUndef)
          \<and> (\<forall>m h0 hf flows name reactFlow initialState fn.
                find (\<lambda>flow. rf_name flow = name) flows = Some reactFlow
                \<and> convert h0 reactFlow = Some (Inr (hf, this))
                \<and> node_at hf this = Some fn \<and> flow_params fn = flowParams
                \<and> get_prop_strict hf flowParams ''nodeParams'' = Inr nodeParams
                \<and> run_arrives env this flowParams nodeParams m hf
                     (initialState\<lparr>flowName := VStr name, startTime := now_ms env,
                                    top_nodeExecutionTracker := Some []\<rparr>)
                     (Suc n) (h, currentNode, s)
              \<longrightarrow> (\<exists>r. executeFlow m env h0 flows name initialState = Some (Inr r)
                        \<and> result r = RespText t)))"
proof (intro conjI allI impI)
  fix p :: finish_prep_result and e :: finish_exec_result and np :: val
  assume "fr_messages p = messages s"
  with msgs have "fr_messages p = ms @ [\<lparr>role = ''assistant'', content = ContentText t\<rparr>]" by simp
  from FinishNode_post_text[OF this t tr]
  show "\<exists>s'. FinishNode_post env h1 currentNode p e s np
                    = Inr (case successor_keys h1 currentNode of
                             k # ks \<Rightarrow> k | [] \<Rightarrow> FINAL_RESPONSE_ACTION env, s')
                  \<and> lastResponse s' = Some (RespText t)"
    by blast
next
  assume none: "map_at h1 (successors c1) = Some []"
  have keys: "successor_keys h1 currentNode = []"
    using c1 none by (simp add: successor_keys_def Map_keys_def)
  from FinishNode_run_text[OF msgs t tr, of h1 currentNode "node_params c1"] keys
  obtain s' where run: "FinishNode_run env h1 currentNode s (node_params c1)
                          = Inr (FINAL_RESPONSE_ACTION env, s')"
    and last: "lastResponse s' = Some (RespText t)"
    by auto
  have nr: "node_run (orch_loop n) env h1 currentNode s = Some (Inr (FINAL_RESPONSE_ACTION env, h1, s'))"
    using c1 kind run by (simp add: node_run_def with_heap_def)
  have gs: "getSuccessor h1 currentNode (FINAL_RESPONSE_ACTION env) = Some (h1, None)"
    using c1 none by (simp add: getSuccessor_def)
  have visit: "orch_visit (orch_loop n) env h this flowParams nodeParams currentNode s
                 = Some (Done (Inr (h1, s'\<lparr>currentNodeId := VUndef\<rparr>)))"
    using flow cur params set nr gs tokens by (simp add: orch_visit_def)
  with last
  show "\<exists>s'. orch_visit (orch_loop n) env h this flowParams nodeParams currentNode s
                     = Some (Done (Inr (h1, s')))
                  \<and> lastResponse s' = Some (RespText t) \<and> currentNodeId s' = VUndef"
    by auto
  from visit have loop: "orch_loop (Suc n) env h this flowParams nodeParams currentNode s
                           = Some (Inr (h1, s'\<lparr>currentNodeId := VUndef\<rparr>))"
    by (simp add: orch_step_def)
  fix m h0 hf flows name reactFlow initialState fn
  assume a: "find (\<lambda>flow. rf_name flow = name) flows = Some reactFlow
                \<and> convert h0 reactFlow = Some (Inr (hf, this))
                \<and> node_at hf this = Some fn \<and> flow_params fn = flowParams
                \<and> get_prop_strict hf flowParams ''nodeParams'' = Inr nodeParams
                \<and> run_arrives env this flowParams nodeParams m hf
                     (initialState\<lparr>flowName := VStr name, startTime := now_ms env,
                                    top_nodeExecutionTracker := Some []\<rparr>)
                     (Suc n) (h, currentNode, s)"
  then have "Flow_run_top m env hf this
               (initialState\<lparr>flowName := VStr name, startTime := now_ms env,
                              top_nodeExecutionTracker := Some []\<rparr>)
             = Some (Inr (''default'', h1, s'\<lparr>currentNodeId := VUndef\<rparr>))"
    using loop Flow_run_top_completes[of hf this fn nodeParams env m _ "Suc n" h currentNode s]
    by auto
  moreover from a have "find (\<lambda>flow. rf_name flow = name) flows = Some reactFlow"
    and "convert h0 reactFlow = Some (Inr (hf, this))"
    by simp_all
  ultimately have "\<exists>r. executeFlow m env h0 flows name initialState = Some (Inr r)
           \<and> result r = response_or (lastResponse (s'\<lparr>currentNodeId := VUndef\<rparr>))
                          (RespText ''Flow execution completed'')"
    using executeFlow_completes by blast
  with last t
  show "\<exists>r. executeFlow m env h0 flows name initialState = Some (Inr r) \<and> result r = RespText t"
    by (cases t) (auto simp: response_or_def)
qed

theorem FinishNode_stores_last_text_witness:
  "resume_entry finish_only 1 sample_state = Some (finish_entry, 2)
   \<and> orch_visit (orch_loop 0) sample_env finish_entry 1 (VRef 2) VUndef 2 sample_state
       = Some (Done (Inr (set_node finish_entry 2
                            \<lparr>kind = FinishNode, flow_params = VRef 2, node_params = VRef 7, successors = 3\<rparr>,
                          sample_state\<lparr>lastResponse := Some (RespText ''done'')\<rparr>)))
   \<and> result_of (executeFlow 5 sample_env empty_heap [start_finish_flow] ''demo'' sample_state)
       = Some (RespText ''done'')"
proof -
  let ?c1 = "\<lparr>kind = FinishNode, flow_params = VRef 2, node_params = VRef 7, successors = 3\<rparr>"
  let ?h1 = "set_node finish_entry 2 ?c1"
  have flow: "node_at finish_entry 1
                = Some \<lparr>kind = Flow 0, flow_params = VRef 2, node_params = VRef 3, successors = 1\<rparr>"
    by code_simp
  have cur: "node_at finish_entry 2
               = Some \<lparr>kind = FinishNode, flow_params = VRef 6, node_params = VRef 7, successors = 3\<rparr>"
    by code_simp
  have params: "effective_params finish_entry
                  (flow_params \<lparr>kind = Flow 0, flow_params = VRef 2, node_params = VRef 3, successors = 1\<rparr>)
                  (VRef 2) VUndef
                  (flow_params \<lparr>kind = FinishNode, flow_params = VRef 6, node_params = VRef 7, successors = 3\<rparr>)
                = Inr (VRef 2, VUndef)"
    by code_simp
  have set: "setParams finish_entry 2 (VRef 2) VUndef = Some ?h1"
    by code_simp
  have c1: "node_at ?h1 2 = Some ?c1"
    by code_simp
  have kind: "kind ?c1 = FinishNode"
    by simp
  have msgs: "messages sample_state
                = [\<lparr>role = ''system'', content = ContentText ''old prompt''\<rparr>,
                   \<lparr>role = ''user'', content = ContentText ''hi''\<rparr>]
                  @ [\<lparr>role = ''assistant'', content = ContentText ''done''\<rparr>]"
    by code_simp
  have t: "''done'' \<noteq> []"
    by simp
  have tr: "ENABLE_EXECUTION_TRACKER sample_env \<longrightarrow> trackingInfo sample_state \<noteq> None"
    by code_simp
  have tokens: "FINAL_RESPONSE_ACTION sample_env \<noteq> STAY_ON_NODE_ACTION sample_env"
    by code_simp
  have none: "map_at ?h1 (successors ?c1) = Some []"
    by code_simp
  have entry: "resume_entry finish_only 1 sample_state = Some (finish_entry, 2)"
    by code_simp
  have visit: "orch_visit (orch_loop 0) sample_env finish_entry 1 (VRef 2) VUndef 2 sample_state
       = Some (Done (Inr (?h1, sample_state\<lparr>lastResponse := Some (RespText ''done'')\<rparr>)))"
    by code_simp
  have run: "result_of (executeFlow 5 sample_env empty_heap [start_finish_flow] ''demo'' sample_state)
       = Some (RespText ''done'')"
    by code_simp
  from FinishNode_stores_last_text[OF flow cur params set c1 kind msgs t tr tokens, of 0] none
  have "\<exists>s'. orch_visit (orch_loop 0) sample_env finish_entry 1 (VRef 2) VUndef 2 sample_state
                     = Some (Done (Inr (?h1, s')))
                  \<and> lastResponse s' = Some (RespText ''done'') \<and> currentNodeId s' = VUndef"
    by blast
  with entry visit run show ?thesis by simp
qed

text \<open>
  The claim as it was stated fails where the last assistant message has an empty text: post
  leaves the last response as it was. For a content that is not a text, post stores an
  object of content and role, not the content.
\<close>

theorem FinishNode_post_counterexample:
  "FinishNode_post sample_env finish_only 0
      \<lparr>fr_nodeId = VStr ''f'', fr_nodeType = ''finish'',
       fr_messages = [\<lparr>role = ''assistant'', content = ContentText []\<rparr>]\<rparr>
      \<lparr>fe_success = True\<rparr> (sample_state\<lparr>lastResponse := Some (RespText ''earlier'')\<rparr>) (VRef 1)
     = Inr (''FINAL_RESPONSE'', sample_state\<lparr>lastResponse := Some (RespText ''earlier'')\<rparr>)
   \<and> FinishNode_post sample_env finish_only 0
      \<lparr>fr_nodeId = VStr ''f'', fr_nodeType = ''finish'',
       fr_messages = [\<lparr>role = ''assistant'', content = ContentParts [VStr ''done'']\<rparr>]\<rparr>
      \<lparr>fe_success = True\<rparr> (sample_state\<lparr>lastResponse := Some (RespText ''earlier'')\<rparr>) (VRef 1)
     = Inr (''FINAL_RESPONSE'',
            sample_state\<lparr>lastResponse := Some (RespMessage (ContentParts [VStr ''done'']) ''assistant'')\<rparr>)"
  by code_simp

section \<open>Building the graph\<close>

lemma get_prop_extend:
  "objs h1 = objs h @ new \<Longrightarrow> get_prop h v k \<noteq> VUndef \<Longrightarrow> get_prop h1 v k = get_prop h v k"
  by (auto simp: get_prop_def obj_at_def nth_append split: val.splits if_splits)

lemma createNode_Inl:
  "createNode h node = Some (Inl e) \<Longrightarrow> e = Error (''Unknown node type: '' @ fn_type node)"
  by (auto simp: createNode_def BaseNode_new_def alloc_obj_def alloc_map_def alloc_node_def
                 setParams_def node_at_def Let_def split: if_splits option.splits prod.splits)

lemma createNode_not_None: "createNode h node \<noteq> None"
  by (auto simp: createNode_def BaseNode_new_def alloc_obj_def alloc_map_def alloc_node_def
                 setParams_def node_at_def Let_def split: if_splits option.splits prod.splits)

lemma createNode_Inr:
  assumes "createNode h node = Some (Inr (h1, a))"
  shows "a = length (nodes h) \<and> length (nodes h1) = Suc (length (nodes h))
       \<and> take (length (nodes h)) (nodes h1) = nodes h
       \<and> (\<exists>new. objs h1 = objs h @ new) \<and> maps h1 = maps h @ [[]]
       \<and> successors (nodes h1 ! a) = length (maps h)
       \<and> get_prop h1 (flow_params (nodes h1 ! a)) ''id'' = VStr (fn_id node)"
  using assms
  by (auto simp: createNode_def BaseNode_new_def alloc_obj_def alloc_map_def alloc_node_def
                 setParams_def node_at_def set_node_def get_prop_def obj_at_def Let_def nth_append
           split: if_splits option.splits prod.splits)

lemma Map_set_subset: "set (Map_set m k v) \<subseteq> insert (k, v) (set m)"
  by (induction m) (auto split: if_splits)

lemma wired_createNode:
  assumes w: "wired h nodesMap" and c: "createNode h node = Some (Inr (h1, a))"
  shows "wired h1 (Map_set nodesMap (fn_id node) a)"
proof -
  from createNode_Inr[OF c] obtain new where
    a: "a = length (nodes h)" and len: "length (nodes h1) = Suc (length (nodes h))"
    and tk: "take (length (nodes h)) (nodes h1) = nodes h"
    and ob: "objs h1 = objs h @ new" and mp: "maps h1 = maps h @ [[]]"
    and su: "successors (nodes h1 ! a) = length (maps h)"
    and id: "get_prop h1 (flow_params (nodes h1 ! a)) ''id'' = VStr (fn_id node)"
    by auto
  have old: "b < length (nodes h) \<Longrightarrow> nodes h1 ! b = nodes h ! b" for b
    using tk by (metis nth_take)
  have "a' < length (nodes h1) \<and> successors (nodes h1 ! a') < length (maps h1)
        \<and> get_prop h1 (flow_params (nodes h1 ! a')) ''id'' = VStr i"
    if "(i, a') \<in> set (Map_set nodesMap (fn_id node) a)" for i a'
  proof (cases "(i, a') = (fn_id node, a)")
    case True
    then show ?thesis using a len mp su id by simp
  next
    case False
    with that Map_set_subset[of nodesMap "fn_id node" a] have "(i, a') \<in> set nodesMap" by auto
    with w have b: "a' < length (nodes h)" "successors (nodes h ! a') < length (maps h)"
      "get_prop h (flow_params (nodes h ! a')) ''id'' = VStr i"
      by (auto simp: wired_def)
    from get_prop_extend[OF ob, of "flow_params (nodes h ! a')" "''id''"] b
    show ?thesis using old[OF b(1)] len mp by simp
  qed
  then show ?thesis by (auto simp: wired_def)
qed

lemma create_nodes_keys:
  "create_nodes h nodesMap ns = Some (Inr (h1, nodesMap1)) \<Longrightarrow>
     map_of nodesMap k \<noteq> None \<or> k \<in> fn_id ` set ns \<Longrightarrow> map_of nodesMap1 k \<noteq> None"
proof (induction ns arbitrary: h nodesMap)
  case Nil
  then show ?case by simp
next
  case (Cons node ns)
  from Cons.prems(1) obtain h2 a where
    c: "createNode h node = Some (Inr (h2, a))"
    and r: "create_nodes h2 (Map_set nodesMap (fn_id node) a) ns = Some (Inr (h1, nodesMap1))"
    by (auto split: option.splits sum.splits)
  have "map_of (Map_set nodesMap (fn_id node) a) k \<noteq> None \<or> k \<in> fn_id ` set ns"
    using Cons.prems(2) by (auto simp: map_of_Map_set)
  from Cons.IH[OF r this] show ?case .
qed

lemma create_nodes_result:
  "wired h nodesMap \<Longrightarrow>
     (\<exists>ty. create_nodes h nodesMap ns = Some (Inl (Error (''Unknown node type: '' @ ty))))
   \<or> (\<exists>h1 nodesMap1. create_nodes h nodesMap ns = Some (Inr (h1, nodesMap1)) \<and> wired h1 nodesMap1)"
proof (induction ns arbitrary: h nodesMap)
  case Nil
  then show ?case by simp
next
  case (Cons node ns)
  show ?case
  proof (cases "createNode h node")
    case None
    then show ?thesis using createNode_not_None by blast
  next
    case (Some r)
    show ?thesis
    proof (cases r)
      case (Inl e)
      with Some createNode_Inl[of h node e] show ?thesis by auto
    next
      case (Inr p)
      obtain h1 a where p: "p = (h1, a)" by (cases p)
      from wired_createNode[OF Cons.prems] Some Inr p
      have w1: "wired h1 (Map_set nodesMap (fn_id node) a)" by simp
      from Cons.IH[OF w1] Some Inr p show ?thesis by simp
    qed
  qed
qed

lemma get_prop_maps_update: "get_prop (h\<lparr>maps := m\<rparr>) v k = get_prop h v k"
  by (cases v) (simp_all add: get_prop_def obj_at_def)

lemma wired_addSuccessor:
  assumes w: "wired h nodesMap" and s: "map_of nodesMap src = Some a"
  shows "(\<exists>act. addSuccessor h a b action = Some (Inl (Error (''Action '' @ act @ '' already exists''))))
       \<or> (\<exists>h1. addSuccessor h a b action = Some (Inr h1) \<and> wired h1 nodesMap)"
proof -
  from s have "(src, a) \<in> set nodesMap" by (rule map_of_SomeD)
  with w have v: "a < length (nodes h)" "successors (nodes h ! a) < length (maps h)"
    by (auto simp: wired_def)
  then show ?thesis
    using w
    by (auto simp: addSuccessor_def node_at_def map_at_def set_map_def wired_def get_prop_maps_update)
qed

lemma connect_edges_result:
  "wired h nodesMap \<Longrightarrow>
     (\<exists>act. connect_edges h nodesMap es = Some (Inl (Error (''Action '' @ act @ '' already exists''))))
   \<or> (\<exists>h1. connect_edges h nodesMap es = Some (Inr h1) \<and> wired h1 nodesMap)"
proof (induction es arbitrary: h)
  case Nil
  then show ?case by simp
next
  case (Cons e es)
  show ?case
  proof (cases "map_of nodesMap (e_source e)")
    case None
    with Cons show ?thesis by simp
  next
    case (Some a)
    show ?thesis
    proof (cases "map_of nodesMap (e_target e)")
      case None
      with Some Cons show ?thesis by simp
    next
      case (Some b)
      from wired_addSuccessor[OF Cons.prems \<open>map_of nodesMap (e_source e) = Some a\<close>,
             of b "if e_id e = [] then ''default'' else e_id e"]
      show ?thesis
      proof
        assume "\<exists>act. addSuccessor h a b (if e_id e = [] then ''default'' else e_id e)
                  = Some (Inl (Error (''Action '' @ act @ '' already exists'')))"
        with Some \<open>map_of nodesMap (e_source e) = Some a\<close> show ?thesis by auto
      next
        assume "\<exists>h1. addSuccessor h a b (if e_id e = [] then ''default'' else e_id e) = Some (Inr h1)
                  \<and> wired h1 nodesMap"
        then obtain h1 where
          a: "addSuccessor h a b (if e_id e = [] then ''default'' else e_id e) = Some (Inr h1)"
          and w1: "wired h1 nodesMap" by auto
        from Cons.IH[OF w1] a Some \<open>map_of nodesMap (e_source e) = Some a\<close> show ?thesis by auto
      qed
    qed
  qed
qed

lemma convert_result:
  "(\<exists>ty. convert h reactFlow = Some (Inl (Error (''Unknown node type: '' @ ty))))
   \<or> (\<exists>act. convert h reactFlow = Some (Inl (Error (''Action '' @ act @ '' already exists''))))
   \<or> (find (\<lambda>node. fn_type node = ''start'') (rf_nodes reactFlow) = None
        \<and> convert h reactFlow = Some (Inl (Error ''Flow must have a start node'')))
   \<or> (\<exists>first. find (\<lambda>node. fn_type node = ''start'') (rf_nodes reactFlow) = Some first
        \<and> built_start_id (convert h reactFlow) = Some (VStr (fn_id first)))"
proof -
  have w0: "wired h []" by (simp add: wired_def)
  from create_nodes_result[OF w0, of "rf_nodes reactFlow"]
  show ?thesis
  proof
    assume "\<exists>ty. create_nodes h [] (rf_nodes reactFlow) = Some (Inl (Error (''Unknown node type: '' @ ty)))"
    then show ?thesis by (auto simp: convert_def)
  next
    assume "\<exists>h1 nodesMap1. create_nodes h [] (rf_nodes reactFlow) = Some (Inr (h1, nodesMap1))
              \<and> wired h1 nodesMap1"
    then obtain h1 nm where cn: "create_nodes h [] (rf_nodes reactFlow) = Some (Inr (h1, nm))"
      and w1: "wired h1 nm" by auto
    from connect_edges_result[OF w1, of "rf_edges reactFlow"]
    show ?thesis
    proof
      assume "\<exists>act. connect_edges h1 nm (rf_edges reactFlow)
                = Some (Inl (Error (''Action '' @ act @ '' already exists'')))"
      with cn show ?thesis by (auto simp: convert_def)
    next
      assume "\<exists>h2. connect_edges h1 nm (rf_edges reactFlow) = Some (Inr h2) \<and> wired h2 nm"
      then obtain h2 where ce: "connect_edges h1 nm (rf_edges reactFlow) = Some (Inr h2)"
        and w2: "wired h2 nm" by auto
      show ?thesis
      proof (cases "find (\<lambda>node. fn_type node = ''start'') (rf_nodes reactFlow)")
        case None
        with cn ce show ?thesis by (simp add: convert_def)
      next
        case (Some first)
        then have "first \<in> set (rf_nodes reactFlow)"
          by (auto simp: find_Some_iff)
        with create_nodes_keys[OF cn, of "fn_id first"]
        obtain a where m: "map_of nm (fn_id first) = Some a" by auto
        then have "(fn_id first, a) \<in> set nm" by (rule map_of_SomeD)
        with w2 have v: "a < length (nodes h2)"
          and id: "get_prop h2 (flow_params (nodes h2 ! a)) ''id'' = VStr (fn_id first)"
          by (auto simp: wired_def)
        have "built_start_id (convert h reactFlow) = Some (VStr (fn_id first))"
          using cn ce Some m v id
          by (simp add: convert_def built_start_id_def BaseNode_new_def alloc_obj_def alloc_map_def
                alloc_node_def setParams_def node_at_def set_node_def node_flow_params_def
                Let_def nth_append get_prop_extend[of _ h2])
        with Some show ?thesis by simp
      qed
    qed
  qed
qed

text \<open>
  C4, as amended. Building a graph needs a node of type \<open>start\<close>: a description without
  one is refused (with this complaint, or with an earlier one about a node type or an
  action), and since building runs no node, this is before any traversal. A description
  with one or more start nodes is not refused on their account: when it is built, the flow
  starts at the node that carries the id of the first start node of the description.
\<close>

theorem convert_needs_a_start_node:
  "(find (\<lambda>node. fn_type node = ''start'') (rf_nodes reactFlow) = None \<longrightarrow>
      (\<exists>e. convert h reactFlow = Some (Inl e)))
   \<and> (\<forall>first. find (\<lambda>node. fn_type node = ''start'') (rf_nodes reactFlow) = Some first \<longrightarrow>
         (\<exists>ty. convert h reactFlow = Some (Inl (Error (''Unknown node type: '' @ ty))))
       \<or> (\<exists>act. convert h reactFlow = Some (Inl (Error (''Action '' @ act @ '' already exists''))))
       \<or> built_start_id (convert h reactFlow) = Some (VStr (fn_id first)))"
  using convert_result[of h reactFlow] by auto

theorem convert_needs_a_start_node_witness:
  "find (\<lambda>node. fn_type node = ''start'') (rf_nodes no_start_flow) = None
   \<and> convert empty_heap no_start_flow = Some (Inl (Error ''Flow must have a start node''))
   \<and> find (\<lambda>node. fn_type node = ''start'') (rf_nodes start_finish_flow)
       = Some \<lparr>fn_id = ''s'', fn_type = ''start'', fn_label = VStr ''Start'', fn_properties = VUndef\<rparr>
   \<and> built_start_id (convert empty_heap start_finish_flow) = Some (VStr ''s'')"
proof -
  have none: "find (\<lambda>node. fn_type node = ''start'') (rf_nodes no_start_flow) = None"
    by code_simp
  have first: "find (\<lambda>node. fn_type node = ''start'') (rf_nodes start_finish_flow)
       = Some \<lparr>fn_id = ''s'', fn_type = ''start'', fn_label = VStr ''Start'', fn_properties = VUndef\<rparr>"
    by code_simp
  have refused: "convert empty_heap no_start_flow = Some (Inl (Error ''Flow must have a start node''))"
    by code_simp
  have ok: "built_start_id (convert empty_heap start_finish_flow) = Some (VStr ''s'')"
    by code_simp
  from convert_needs_a_start_node[of no_start_flow empty_heap] none
  have "\<exists>e. convert empty_heap no_start_flow = Some (Inl e)" by blast
  with none first refused ok show ?thesis by simp
qed

text \<open>
  The claim as it was stated fails for a description with two start nodes: it is built,
  and the flow starts at the first of them.
\<close>

theorem convert_two_starts_counterexample:
  "built_start_id (convert empty_heap two_starts_flow) = Some (VStr ''s1'')"
  by code_simp

section \<open>Suspending and resuming\<close>

lemma bfs_sound: "bfs h target queue visited = Some a \<Longrightarrow> node_id h a = target"
  by (induction h target queue visited rule: bfs.induct) (auto split: if_splits prod.splits)

text \<open>
  An invocation with a current node id set begins at the node the search from the cloned
  start node finds, and at a fresh clone of the start node when the search finds none.
\<close>

lemma resume_entry_found:
  assumes "truthy (currentNodeId sr)" and "getStartNode hr this = Some (h', st)"
  shows "(\<forall>a. bfs h' (currentNodeId sr) [st] [] = Some a \<longrightarrow>
            resume_entry hr this sr = Some (h', a) \<and> node_id h' a = currentNodeId sr)
       \<and> (bfs h' (currentNodeId sr) [st] [] = None \<longrightarrow> resume_entry hr this sr = getStartNode h' this)"
proof (intro conjI allI impI)
  fix a assume b: "bfs h' (currentNodeId sr) [st] [] = Some a"
  with assms show "resume_entry hr this sr = Some (h', a)"
    by (simp add: resume_entry_def del: bfs.simps)
  from bfs_sound[OF b] show "node_id h' a = currentNodeId sr" .
next
  assume "bfs h' (currentNodeId sr) [st] [] = None"
  with assms show "resume_entry hr this sr = getStartNode h' this"
    by (simp add: resume_entry_def del: bfs.simps)
qed

text \<open>
  Suspending. When the run of the node the loop is at returns the suspend token, the pass
  ends the loop: the current node id of the shared state is the id in the node's
  \<^verbatim>\<open>node_params\<close>, and the store is the one the node's run left, so no successor was
  looked up or cloned; every invocation of \<^verbatim>\<open>orchestrate\<close> that arrives at this node
  returns so.
\<close>

lemma suspend_ends_the_loop:
  assumes flow: "node_at h this = Some flow"
    and cur: "node_at h currentNode = Some c"
    and params: "effective_params h (flow_params flow) flowParams nodeParams (flow_params c)
                   = Inr (paramsToSet, own)"
    and set: "setParams h currentNode paramsToSet own = Some h1"
    and run: "node_run (orch_loop n) env h1 currentNode s = Some (Inr (STAY_ON_NODE_ACTION env, h2, s2))"
  shows "orch_visit (orch_loop n) env h this flowParams nodeParams currentNode s
           = Some (Done (Inr (h2, s2\<lparr>currentNodeId := node_id h2 currentNode\<rparr>)))
       \<and> (\<forall>m hf sf. run_arrives env this flowParams nodeParams m hf sf (Suc n) (h, currentNode, s)
            \<longrightarrow> orchestrate m env hf this sf flowParams nodeParams
                  = Some (Inr (h2, s2\<lparr>currentNodeId := node_id h2 currentNode\<rparr>)))"
proof -
  have visit: "orch_visit (orch_loop n) env h this flowParams nodeParams currentNode s
           = Some (Done (Inr (h2, s2\<lparr>currentNodeId := node_id h2 currentNode\<rparr>)))"
    using flow cur params set run by (simp add: orch_visit_def)
  then have loop: "orch_loop (Suc n) env h this flowParams nodeParams currentNode s
           = Some (Inr (h2, s2\<lparr>currentNodeId := node_id h2 currentNode\<rparr>))"
    by (simp add: orch_step_def)
  have orch: "\<forall>m hf sf. run_arrives env this flowParams nodeParams m hf sf (Suc n) (h, currentNode, s)
            \<longrightarrow> orchestrate m env hf this sf flowParams nodeParams
                  = Some (Inr (h2, s2\<lparr>currentNodeId := node_id h2 currentNode\<rparr>))"
    using loop by (auto dest: run_arrives_outcome)
  from visit orch show ?thesis by blast
qed

text \<open>
  Where the templates carry their ids in \<^verbatim>\<open>node_params\<close>, as in the store \<open>resumable\<close>,
  the run is suspended at the tool node \<open>m\<close> and the next invocation begins at that node
  (the template at address 1).
\<close>

lemma resume_at_node_params_id:
  "orchestrate 5 pausing_env resumable 2 sample_state (VRef 2) VUndef
     = Some (Inr (resumable_paused, sample_state\<lparr>currentNodeId := VStr ''m''\<rparr>))
   \<and> node_id resumable_paused 1 = VStr ''m''
   \<and> entry_kind 2 (resumable_paused, sample_state\<lparr>currentNodeId := VStr ''m''\<rparr>) = Some MCPNode
   \<and> map_option snd (resume_entry resumable_paused 2 (sample_state\<lparr>currentNodeId := VStr ''m''\<rparr>))
       = Some 1"
proof -
  have flow: "node_at resumable_at_tool 2
                = Some \<lparr>kind = Flow 0, flow_params = VRef 2, node_params = VRef 2, successors = 2\<rparr>"
    by code_simp
  have cur: "node_at resumable_at_tool 4
               = Some \<lparr>kind = MCPNode, flow_params = VRef 9, node_params = VRef 10, successors = 6\<rparr>"
    by code_simp
  have params: "effective_params resumable_at_tool
                  (flow_params \<lparr>kind = Flow 0, flow_params = VRef 2, node_params = VRef 2, successors = 2\<rparr>)
                  (VRef 2) VUndef
                  (flow_params \<lparr>kind = MCPNode, flow_params = VRef 9, node_params = VRef 10, successors = 6\<rparr>)
                = Inr (VRef 2, VUndef)"
    by code_simp
  have set: "setParams resumable_at_tool 4 (VRef 2) VUndef = Some resumable_paused"
    by code_simp
  have run: "node_run (orch_loop 3) pausing_env resumable_paused 4 sample_state
               = Some (Inr (STAY_ON_NODE_ACTION pausing_env, resumable_paused, sample_state))"
    by code_simp
  have entry: "resume_entry resumable 2 sample_state = Some (resumable_entry, 3)"
    by code_simp
  have v1: "orch_visit (orch_loop 4) pausing_env resumable_entry 2 (VRef 2) VUndef 3 sample_state
              = Some (Next resumable_at_tool 4 sample_state)"
    by code_simp
  have "loop_arrives pausing_env 2 (VRef 2) VUndef (Suc 4) (resumable_entry, 3, sample_state)
          4 (resumable_at_tool, 4, sample_state)"
    by (rule loop_arrives.pass[OF v1 loop_arrives.here])
  with entry have arr: "run_arrives pausing_env 2 (VRef 2) VUndef 5 resumable sample_state
                          (Suc 3) (resumable_at_tool, 4, sample_state)"
    by (auto simp: run_arrives_def)
  have id: "node_id resumable_paused 4 = VStr ''m''"
    by code_simp
  have id1: "node_id resumable_paused 1 = VStr ''m''"
    by code_simp
  have kind: "entry_kind 2 (resumable_paused, sample_state\<lparr>currentNodeId := VStr ''m''\<rparr>) = Some MCPNode"
    by code_simp
  have at: "map_option snd (resume_entry resumable_paused 2 (sample_state\<lparr>currentNodeId := VStr ''m''\<rparr>))
       = Some 1"
    by code_simp
  from suspend_ends_the_loop[OF flow cur params set run] arr
  have "orchestrate 5 pausing_env resumable 2 sample_state (VRef 2) VUndef
          = Some (Inr (resumable_paused, sample_state\<lparr>currentNodeId := node_id resumable_paused 4\<rparr>))"
    by blast
  with id id1 kind at show ?thesis by simp
qed

text \<open>
  C1. A node whose post returns the suspend token makes \<^verbatim>\<open>orchestrate\<close> set the current
  node id to that node's id and return without resolving a successor, and the next
  invocation with the same shared state resumes at that node, not at the start node. The
  first half holds of the code (above). The second half does not hold for a graph as the
  converter builds it: \<^verbatim>\<open>createNode\<close> calls \<^verbatim>\<open>setParams(params)\<close>, which stores the id in
  \<^verbatim>\<open>flow_params\<close> and leaves \<^verbatim>\<open>node_params\<close> empty, while the search of \<^verbatim>\<open>orchestrate\<close>
  compares \<^verbatim>\<open>node.node_params?.id\<close>, although the loop of the same method looks the node's
  parameters up under \<^verbatim>\<open>currentNode.flow_params.id\<close>. In the flow built from the start node
  \<open>s\<close> followed by the tool node \<open>m\<close>, the tool node is the direct successor of the start
  node and has the id \<open>m\<close> in its \<^verbatim>\<open>flow_params\<close> and none in its \<^verbatim>\<open>node_params\<close>; the
  run is suspended at it with the current node id \<open>m\<close>; and the next invocation with the
  state and store that run left begins at a start node.
\<close>

theorem resume_misses_suspended_node:
  "convert empty_heap start_tool_flow = Some (Inr pause_flow_built)
   \<and> snd pause_flow_built = 2
   \<and> map_option kind (node_at (fst pause_flow_built) 0) = Some StartNode
   \<and> map_option kind (node_at (fst pause_flow_built) 1) = Some MCPNode
   \<and> successor_values (fst pause_flow_built) 0 = [1]
   \<and> get_prop (fst pause_flow_built) (node_flow_params (fst pause_flow_built) 1) ''id'' = VStr ''m''
   \<and> node_id (fst pause_flow_built) 1 = VUndef
   \<and> currentNodeId (snd pause_flow_paused) = VStr ''m''
   \<and> entry_kind 2 pause_flow_paused = Some StartNode"
  by code_simp

section \<open>Cloning\<close>

lemma within_mono: "within lo hi v \<Longrightarrow> lo' \<le> lo \<Longrightarrow> hi \<le> hi' \<Longrightarrow> within lo' hi' v"
  by (auto simp: within_def split: val.splits)

lemma grown_refl: "grown h h"
  by (simp add: grown_def)

lemma grown_length: "grown h h' \<Longrightarrow> length (objs h) \<le> length (objs h')"
  by (auto simp: grown_def)

lemma grown_trans:
  assumes "grown h h1" and "grown h1 h2"
  shows "grown h h2"
proof -
  from assms obtain new1 new2 where
    n1: "objs h1 = objs h @ new1"
    and f1: "\<forall>c\<in>set new1. \<forall>w\<in>set (cell_vals c). within (length (objs h)) (length (objs h1)) w"
    and n2: "objs h2 = objs h1 @ new2"
    and f2: "\<forall>c\<in>set new2. \<forall>w\<in>set (cell_vals c). within (length (objs h1)) (length (objs h2)) w"
    by (auto simp: grown_def)
  have l: "length (objs h) \<le> length (objs h1)" "length (objs h1) \<le> length (objs h2)"
    using n1 n2 by simp_all
  have "objs h2 = objs h @ (new1 @ new2)" using n1 n2 by simp
  moreover have "within (length (objs h)) (length (objs h2)) w"
    if "c \<in> set (new1 @ new2)" and "w \<in> set (cell_vals c)" for c w
  proof (cases "c \<in> set new1")
    case True
    with f1 that have "within (length (objs h)) (length (objs h1)) w" by blast
    then show ?thesis by (rule within_mono) (use l in simp_all)
  next
    case False
    with that have "c \<in> set new2" by simp
    with f2 that have "within (length (objs h1)) (length (objs h2)) w" by blast
    then show ?thesis by (rule within_mono) (use l in simp_all)
  qed
  ultimately show ?thesis unfolding grown_def by blast
qed

lemma grown_snoc:
  assumes "grown h h1" and "\<forall>w\<in>set (cell_vals c). within (length (objs h)) (Suc (length (objs h1))) w"
  shows "grown h (fst (alloc_obj h1 c))"
proof -
  from assms(1) obtain new where
    n: "objs h1 = objs h @ new"
    and f: "\<forall>c\<in>set new. \<forall>w\<in>set (cell_vals c). within (length (objs h)) (length (objs h1)) w"
    by (auto simp: grown_def)
  have len: "length (objs (fst (alloc_obj h1 c))) = Suc (length (objs h1))"
    by (simp add: alloc_obj_def)
  have "objs (fst (alloc_obj h1 c)) = objs h @ (new @ [c])"
    using n by (simp add: alloc_obj_def)
  moreover have "within (length (objs h)) (length (objs (fst (alloc_obj h1 c)))) w"
    if "c' \<in> set (new @ [c])" and "w \<in> set (cell_vals c')" for c' w
  proof (cases "c' \<in> set new")
    case True
    with f that have "within (length (objs h)) (length (objs h1)) w" by blast
    then show ?thesis by (rule within_mono) (simp_all add: len)
  next
    case False
    with that have "c' = c" by simp
    with assms(2) that show ?thesis by (simp add: len)
  qed
  ultimately show ?thesis unfolding grown_def by blast
qed

lemma thread_copies:
  assumes f: "copies f"
  shows "thread f h vs = Some (h', vs') \<Longrightarrow>
           grown h h' \<and> maps h' = maps h \<and> nodes h' = nodes h \<and> length vs' = length vs
         \<and> (\<forall>w\<in>set vs'. within (length (objs h)) (length (objs h')) w)"
proof (induction vs arbitrary: h vs')
  case Nil
  then show ?case by (simp add: grown_refl)
next
  case (Cons v vs)
  from Cons.prems obtain h1 v1 vs1 where
    a: "f h v = Some (h1, v1)" and b: "thread f h1 vs = Some (h', vs1)" and c: "vs' = v1 # vs1"
    by (auto split: option.splits)
  from f a have a': "grown h h1" "maps h1 = maps h" "nodes h1 = nodes h"
    "within (length (objs h)) (length (objs h1)) v1"
    by (auto simp: copies_def)
  from Cons.IH[OF b] have b': "grown h1 h'" "maps h' = maps h1" "nodes h' = nodes h1"
    "length vs1 = length vs" "\<forall>w\<in>set vs1. within (length (objs h1)) (length (objs h')) w"
    by auto
  have "within (length (objs h)) (length (objs h')) w" if "w \<in> set vs'" for w
  proof (cases "w = v1")
    case True
    with a'(4) show ?thesis
      by (auto intro: within_mono[OF _ le_refl grown_length[OF b'(1)]])
  next
    case False
    with that c have "w \<in> set vs1" by simp
    with b'(5) have "within (length (objs h1)) (length (objs h')) w" by blast
    then show ?thesis
      by (rule within_mono[OF _ grown_length[OF a'(1)] le_refl])
  qed
  with a' b' c grown_trans[OF a'(1) b'(1)] show ?case by simp
qed

lemma cloneDeep_f_copies: "copies (cloneDeep_f n)"
proof (induction n)
  case 0
  show ?case by (auto simp: copies_def grown_refl within_def split: val.splits)
next
  case (Suc n)
  show ?case
    unfolding copies_def
  proof (intro allI impI)
    fix h v h' v'
    assume c: "cloneDeep_f (Suc n) h v = Some (h', v')"
    show "grown h h' \<and> maps h' = maps h \<and> nodes h' = nodes h
            \<and> within (length (objs h)) (length (objs h')) v'"
    proof (cases v)
      case (VRef a)
      with c obtain cl where o: "obj_at h a = Some cl" by (auto split: option.splits)
      show ?thesis
      proof (cases cl)
        case (CObj fs)
        with c VRef o obtain h1 vs where
          t: "thread (cloneDeep_f n) h (map snd fs) = Some (h1, vs)"
          and r: "h' = fst (alloc_obj h1 (CObj (zip (map fst fs) vs)))" "v' = VRef (length (objs h1))"
          by (auto simp: alloc_obj_def split: option.splits)
        from thread_copies[OF Suc t] have g: "grown h h1" "maps h1 = maps h" "nodes h1 = nodes h"
          and w: "\<forall>w\<in>set vs. within (length (objs h)) (length (objs h1)) w" by auto
        have "within (length (objs h)) (Suc (length (objs h1))) x"
          if "x \<in> set (cell_vals (CObj (zip (map fst fs) vs)))" for x
        proof -
          from that have "x \<in> set vs" by (auto dest: set_zip_rightD)
          with w have "within (length (objs h)) (length (objs h1)) x" by blast
          then show ?thesis by (rule within_mono) simp_all
        qed
        then have "\<forall>w\<in>set (cell_vals (CObj (zip (map fst fs) vs))).
                within (length (objs h)) (Suc (length (objs h1))) w"
          by blast
        from grown_snoc[OF g(1) this] g grown_length[OF g(1)] r show ?thesis
          by (auto simp: alloc_obj_def within_def)
      next
        case (CArr xs)
        with c VRef o obtain h1 vs where
          t: "thread (cloneDeep_f n) h xs = Some (h1, vs)"
          and r: "h' = fst (alloc_obj h1 (CArr vs))" "v' = VRef (length (objs h1))"
          by (auto simp: alloc_obj_def split: option.splits)
        from thread_copies[OF Suc t] have g: "grown h h1" "maps h1 = maps h" "nodes h1 = nodes h"
          and w: "\<forall>w\<in>set vs. within (length (objs h)) (length (objs h1)) w" by auto
        have "within (length (objs h)) (Suc (length (objs h1))) x" if "x \<in> set (cell_vals (CArr vs))" for x
        proof -
          from that w have "within (length (objs h)) (length (objs h1)) x" by simp
          then show ?thesis by (rule within_mono) simp_all
        qed
        then have "\<forall>w\<in>set (cell_vals (CArr vs)). within (length (objs h)) (Suc (length (objs h1))) w"
          by blast
        from grown_snoc[OF g(1) this] g grown_length[OF g(1)] r show ?thesis
          by (auto simp: alloc_obj_def within_def)
      qed
    qed (use c in \<open>auto simp: grown_refl within_def\<close>)
  qed
qed

lemma cloneDeep_copies:
  "cloneDeep h v = Some (h', v') \<Longrightarrow>
     grown h h' \<and> maps h' = maps h \<and> nodes h' = nodes h
   \<and> within (length (objs h)) (length (objs h')) v'"
  using cloneDeep_f_copies[of "length (objs h)"] by (auto simp: copies_def cloneDeep_def)


lemma BaseNode_new_shape:
  "BaseNode_new h k = (h', a) \<Longrightarrow>
     objs h' = objs h @ [CObj [], CObj []] \<and> maps h' = maps h @ [[]] \<and> a = length (nodes h)
   \<and> nodes h' = nodes h @ [\<lparr>kind = k, flow_params = VRef (length (objs h)),
                              node_params = VRef (Suc (length (objs h))), successors = length (maps h)\<rparr>]"
  by (auto simp: BaseNode_new_def alloc_obj_def alloc_map_def alloc_node_def Let_def)

lemma grown_BaseNode_new: "BaseNode_new h k = (h', a) \<Longrightarrow> grown h h'"
  by (auto simp: grown_def dest!: BaseNode_new_shape)

lemma clone_cases:
  assumes c: "clone h t = Some (h1, a)" and t: "node_at h t = Some T"
  obtains hb hc fp hd np m where
    "BaseNode_new h (clone_kind (kind T)) = (hb, a)"
    "cloneDeep hb (flow_params T) = Some (hc, fp)"
    "cloneDeep hc (node_params T) = Some (hd, np)"
    "map_at hd (successors T) = Some m"
    "h1 = set_node (fst (alloc_map hd m)) a
            \<lparr>kind = clone_kind (kind T), flow_params = fp, node_params = np,
             successors = snd (alloc_map hd m)\<rparr>"
proof -
  obtain hb b where nb: "BaseNode_new h (clone_kind (kind T)) = (hb, b)"
    by (cases "BaseNode_new h (clone_kind (kind T))")
  from c t nb have c1: "(case cloneDeep hb (flow_params T) of
            None \<Rightarrow> None
          | Some (h2, fp) \<Rightarrow> (case cloneDeep h2 (node_params T) of
                None \<Rightarrow> None
              | Some (h3, np) \<Rightarrow> (case map_at h3 (successors T) of
                    None \<Rightarrow> None
                  | Some m \<Rightarrow>
                      (let (h4, m') = alloc_map h3 m in
                       Some (set_node h4 b
                               \<lparr>kind = clone_kind (kind T), flow_params = fp,
                                node_params = np, successors = m'\<rparr>, b))))) = Some (h1, a)"
    by (simp add: clone_def)
  then obtain hc fp where cd1: "cloneDeep hb (flow_params T) = Some (hc, fp)"
    by (cases "cloneDeep hb (flow_params T)") auto
  from c1 cd1 have c2: "(case cloneDeep hc (node_params T) of
                None \<Rightarrow> None
              | Some (h3, np) \<Rightarrow> (case map_at h3 (successors T) of
                    None \<Rightarrow> None
                  | Some m \<Rightarrow>
                      (let (h4, m') = alloc_map h3 m in
                       Some (set_node h4 b
                               \<lparr>kind = clone_kind (kind T), flow_params = fp,
                                node_params = np, successors = m'\<rparr>, b)))) = Some (h1, a)"
    by simp
  then obtain hd np where cd2: "cloneDeep hc (node_params T) = Some (hd, np)"
    by (cases "cloneDeep hc (node_params T)") auto
  from c2 cd2 have c3: "(case map_at hd (successors T) of
                    None \<Rightarrow> None
                  | Some m \<Rightarrow>
                      (let (h4, m') = alloc_map hd m in
                       Some (set_node h4 b
                               \<lparr>kind = clone_kind (kind T), flow_params = fp,
                                node_params = np, successors = m'\<rparr>, b))) = Some (h1, a)"
    by simp
  then obtain m where mm: "map_at hd (successors T) = Some m"
    by (cases "map_at hd (successors T)") auto
  from c3 mm have res: "h1 = set_node (fst (alloc_map hd m)) b
                 \<lparr>kind = clone_kind (kind T), flow_params = fp, node_params = np,
                  successors = snd (alloc_map hd m)\<rparr>" "a = b"
    by (auto simp: alloc_map_def)
  with nb cd1 cd2 mm that show thesis by blast
qed

text \<open>
  What \<^verbatim>\<open>clone\<close> does to the store: it adds objects that refer to each other only, one
  node, and two Maps (the empty one of the constructor and the copy of the receiver's).
\<close>

lemma clone_shape:
  assumes c: "clone h t = Some (h1, a)" and t: "node_at h t = Some T"
    and s: "successors T < length (maps h)"
  shows "\<exists>fp np. grown h h1 \<and> a = length (nodes h)
           \<and> nodes h1 = nodes h @ [\<lparr>kind = clone_kind (kind T), flow_params = fp, node_params = np,
                                      successors = Suc (length (maps h))\<rparr>]
           \<and> maps h1 = maps h @ [[], maps h ! successors T]
           \<and> within (length (objs h)) (length (objs h1)) fp
           \<and> within (length (objs h)) (length (objs h1)) np"
proof -
  from clone_cases[OF c t] obtain hb h2 fp h3 np m where
    nb: "BaseNode_new h (clone_kind (kind T)) = (hb, a)"
    and cd1: "cloneDeep hb (flow_params T) = Some (h2, fp)"
    and cd2: "cloneDeep h2 (node_params T) = Some (h3, np)"
    and mm: "map_at h3 (successors T) = Some m"
    and res: "h1 = set_node (fst (alloc_map h3 m)) a
                 \<lparr>kind = clone_kind (kind T), flow_params = fp, node_params = np,
                  successors = snd (alloc_map h3 m)\<rparr>"
    by blast
  note sb = BaseNode_new_shape[OF nb]
  note g1 = cloneDeep_copies[OF cd1]
  note g2 = cloneDeep_copies[OF cd2]
  have g: "grown h h3"
    using grown_trans[OF grown_BaseNode_new[OF nb] grown_trans] g1 g2 by blast
  have mp: "maps h3 = maps h @ [[]]" and nd: "nodes h3 = nodes h @ [\<lparr>kind = clone_kind (kind T),
              flow_params = VRef (length (objs h)), node_params = VRef (Suc (length (objs h))),
              successors = length (maps h)\<rparr>]"
    using sb g1 g2 by simp_all
  have m: "m = maps h ! successors T"
    using mm mp s by (simp add: map_at_def nth_append)
  have l: "length (objs h) \<le> length (objs hb)" "length (objs hb) \<le> length (objs h2)"
    "length (objs h2) \<le> length (objs h3)"
    using sb grown_length[of hb h2] grown_length[of h2 h3] g1 g2 by simp_all
  have wf: "within (length (objs h)) (length (objs h3)) fp"
    using g1 by (auto intro: within_mono[OF _ l(1) l(3)])
  have wn: "within (length (objs h)) (length (objs h3)) np"
    using g2 l by (auto intro: within_mono[of "length (objs h2)" "length (objs h3)"])
  have o1: "objs h1 = objs h3" and m1: "maps h1 = maps h3 @ [m]"
    and n1: "nodes h1 = (nodes h3)[a := \<lparr>kind = clone_kind (kind T), flow_params = fp, node_params = np,
                  successors = length (maps h3)\<rparr>]"
    using res by (simp_all add: set_node_def alloc_map_def)
  have "grown h h1" using g o1 by (simp add: grown_def)
  with sb res o1 m1 n1 mp nd m wf wn show ?thesis by simp
qed

lemma reach_region:
  assumes v: "within lo hi v"
    and cl: "\<forall>a. lo \<le> a \<and> a < hi \<and> a < length (objs H) \<longrightarrow>
                 (\<forall>w\<in>set (cell_vals (objs H ! a)). within lo hi w)"
  shows "reach H v \<subseteq> {lo..<hi}"
proof
  fix a assume "a \<in> reach H v"
  then show "a \<in> {lo..<hi}"
  proof (induction rule: reach.induct)
    case (root a)
    with v show ?case by (simp add: within_def)
  next
    case (step a b)
    then have "lo \<le> a \<and> a < hi \<and> a < length (objs H)"
      by (auto elim: reach.cases)
    with cl step(2) have "within lo hi (VRef b)" by blast
    then show ?case by (simp add: within_def)
  qed
qed

lemma reach_set_obj_other:
  assumes "a \<notin> reach H v"
  shows "reach (set_obj H a x) v = reach H v"
proof -
  have len: "length (objs (set_obj H a x)) = length (objs H)"
    by (simp add: set_obj_def)
  have same: "b \<noteq> a \<Longrightarrow> objs (set_obj H a x) ! b = objs H ! b" for b
    by (simp add: set_obj_def)
  have "b \<in> reach H v" if "b \<in> reach (set_obj H a x) v" for b
    using that
  proof (induction rule: reach.induct)
    case (root b)
    then show ?case using len by (auto intro: reach.root)
  next
    case (step c b)
    with assms have "c \<noteq> a" by auto
    with step same[of c] len show ?case by (auto intro: reach.step)
  qed
  moreover have "b \<in> reach (set_obj H a x) v" if "b \<in> reach H v" for b
    using that
  proof (induction rule: reach.induct)
    case (root b)
    then show ?case using len by (auto intro: reach.root)
  next
    case (step c b)
    with assms have "c \<noteq> a" by auto
    with step same[of c] len show ?case by (auto intro: reach.step)
  qed
  ultimately show ?thesis by blast
qed

lemma reach_child:
  assumes b: "b < length (objs H)" and w: "w \<in> set (cell_vals (objs H ! b))"
  shows "reach H w \<subseteq> reach H (VRef b)"
proof
  fix a assume "a \<in> reach H w"
  then show "a \<in> reach H (VRef b)"
  proof (induction rule: reach.induct)
    case (root a)
    with b w show ?case by (auto intro: reach.step[OF reach.root])
  next
    case (step a c)
    then show ?case by (auto intro: reach.step)
  qed
qed

subsection \<open>Reading a value off the store\<close>

lemma content_cell_cong:
  assumes "\<And>w. w \<in> set (cell_vals c) \<Longrightarrow> f w = g w"
  shows "content_cell f c = content_cell g c"
proof (cases c)
  case (CObj fs)
  with assms have "map f (map snd fs) = map g (map snd fs)" by auto
  with CObj show ?thesis by (simp only: content_cell_def cell.case)
next
  case (CArr xs)
  with assms have "map f xs = map g xs" by auto
  with CArr show ?thesis by (simp only: content_cell_def cell.case)
qed

lemma those_all_Some: "those xs = Some ys \<Longrightarrow> x \<in> set xs \<Longrightarrow> x \<noteq> None"
  by (induction xs arbitrary: ys) (auto split: option.splits)

lemma those_not_None: "(\<And>x. x \<in> set xs \<Longrightarrow> x \<noteq> None) \<Longrightarrow> those xs \<noteq> None"
  by (induction xs) (auto split: option.splits)

lemma content_cell_Some:
  assumes "content_cell f c = Some t" and "w \<in> set (cell_vals c)"
  shows "f w \<noteq> None"
proof -
  from assms(1) obtain ts where "those (map f (cell_vals c)) = Some ts"
    by (cases c) (auto simp: content_cell_def)
  moreover from assms(2) have "f w \<in> set (map f (cell_vals c))" by simp
  ultimately show ?thesis by (rule those_all_Some)
qed

lemma content_cell_not_None:
  assumes "\<And>w. w \<in> set (cell_vals c) \<Longrightarrow> f w \<noteq> None"
  shows "content_cell f c \<noteq> None"
proof -
  have "those (map f (cell_vals c)) \<noteq> None"
  proof (rule those_not_None)
    fix x assume "x \<in> set (map f (cell_vals c))"
    then obtain w where "w \<in> set (cell_vals c)" "x = f w" by auto
    with assms show "x \<noteq> None" by simp
  qed
  then obtain ts where "those (map f (cell_vals c)) = Some ts" by blast
  then show ?thesis by (cases c) (simp_all add: content_cell_def)
qed

lemma grown_closed:
  assumes c: "closed_objs h" and g: "grown h h'"
  shows "closed_objs h'"
proof -
  from g obtain new where
    n: "objs h' = objs h @ new"
    and f: "\<forall>c\<in>set new. \<forall>w\<in>set (cell_vals c). within (length (objs h)) (length (objs h')) w"
    by (auto simp: grown_def)
  have "within 0 (length (objs h')) w" if "x \<in> set (objs h')" and "w \<in> set (cell_vals x)" for x w
  proof (cases "x \<in> set (objs h)")
    case True
    with c that have "within 0 (length (objs h)) w" by (auto simp: closed_objs_def)
    then show ?thesis by (rule within_mono) (simp_all add: n)
  next
    case False
    with that n have "x \<in> set new" by simp
    with f that have "within (length (objs h)) (length (objs h')) w" by blast
    then show ?thesis by (rule within_mono) simp_all
  qed
  then show ?thesis by (auto simp: closed_objs_def)
qed

text \<open>Objects added to a store without dangling references change no value read off it.\<close>

lemma content_f_ext:
  assumes cl: "closed_objs h" and e: "objs h' = objs h @ new"
  shows "within 0 (length (objs h)) v \<Longrightarrow> content_f n h' v = content_f n h v"
proof (induction n arbitrary: v)
  case 0
  show ?case by simp
next
  case (Suc n)
  show ?case
  proof (cases v)
    case (VRef a)
    with Suc.prems have a: "a < length (objs h)" by (simp add: within_def)
    then have o: "obj_at h' a = Some (objs h ! a)" "obj_at h a = Some (objs h ! a)"
      using e by (simp_all add: obj_at_def nth_append)
    have "content_cell (content_f n h') (objs h ! a) = content_cell (content_f n h) (objs h ! a)"
    proof (rule content_cell_cong)
      fix w assume "w \<in> set (cell_vals (objs h ! a))"
      with cl a have "within 0 (length (objs h)) w" by (auto simp: closed_objs_def)
      then show "content_f n h' w = content_f n h w" by (rule Suc.IH)
    qed
    with VRef o show ?thesis by simp
  qed simp_all
qed

lemma content_f_Suc: "content_f n h v = Some t \<Longrightarrow> content_f (Suc n) h v = Some t"
proof (induction n arbitrary: v t)
  case 0
  then show ?case by (cases v) simp_all
next
  case (Suc n)
  show ?case
  proof (cases v)
    case (VRef a)
    with Suc.prems obtain c where o: "obj_at h a = Some c"
      and k: "content_cell (content_f n h) c = Some t"
      by (auto split: option.splits)
    have "content_cell (content_f (Suc n) h) c = content_cell (content_f n h) c"
    proof (rule content_cell_cong)
      fix w assume "w \<in> set (cell_vals c)"
      with k have "content_f n h w \<noteq> None" by (rule content_cell_Some)
      then obtain t' where t': "content_f n h w = Some t'" by blast
      from Suc.IH[OF this] t' show "content_f (Suc n) h w = content_f n h w" by simp
    qed
    with k have "content_cell (content_f (Suc n) h) c = Some t" by simp
    with VRef o show ?thesis by (simp del: content_f.simps(2) add: content_f.simps(2)[of "Suc n"])
  qed (use Suc.prems in simp_all)
qed

lemma content_f_le: "n \<le> m \<Longrightarrow> content_f n h v = Some t \<Longrightarrow> content_f m h v = Some t"
proof (induction m)
  case 0
  then show ?case by simp
next
  case (Suc m)
  show ?case
  proof (cases "n = Suc m")
    case True
    with Suc.prems show ?thesis by simp
  next
    case False
    with Suc.prems have "n \<le> m" by simp
    from content_f_Suc[OF Suc.IH[OF this Suc.prems(2)]] show ?thesis .
  qed
qed

lemma content_stable:
  assumes "closed_objs h" and "objs H = objs h @ rest" and "within 0 (length (objs h)) v"
    and "content_f n h v = Some t" and "n \<le> length (objs H)"
  shows "content_of H v = Some t"
  using content_f_le[OF assms(5), of H v t] content_f_ext[OF assms(1,2,3), of n] assms(4)
  by (simp add: content_of_def)

text \<open>A deep copy reads as the value it was made from.\<close>

lemma thread_content:
  assumes f: "\<And>h v h' v'. closed_objs h \<Longrightarrow> within 0 (length (objs h)) v \<Longrightarrow>
                 f h v = Some (h', v') \<Longrightarrow>
                 content_f n h' v' = content_f n h v \<and> content_f n h v \<noteq> None"
    and cp: "copies f"
  shows "thread f h ws = Some (h1, vs) \<Longrightarrow> closed_objs h \<Longrightarrow>
           \<forall>w\<in>set ws. within 0 (length (objs h)) w \<Longrightarrow>
           map (content_f n h1) vs = map (content_f n h) ws \<and> (\<forall>w\<in>set ws. content_f n h w \<noteq> None)"
proof (induction ws arbitrary: h vs)
  case Nil
  then show ?case by simp
next
  case (Cons w ws)
  from Cons.prems(1) obtain ha y ys where
    a: "f h w = Some (ha, y)" and b: "thread f ha ws = Some (h1, ys)" and c: "vs = y # ys"
    by (auto split: option.splits)
  from cp a have g: "grown h ha" and wy: "within (length (objs h)) (length (objs ha)) y"
    by (auto simp: copies_def)
  from thread_copies[OF cp b] have g1: "grown ha h1" by simp
  have cla: "closed_objs ha" using grown_closed[OF Cons.prems(2) g] .
  have wsa: "\<forall>w\<in>set ws. within 0 (length (objs ha)) w"
    using Cons.prems(3) grown_length[OF g] by (auto intro: within_mono)
  from Cons.IH[OF b cla wsa] have ih: "map (content_f n h1) ys = map (content_f n ha) ws"
    "\<forall>w\<in>set ws. content_f n ha w \<noteq> None" by auto
  from g obtain new where e: "objs ha = objs h @ new" by (auto simp: grown_def)
  from g1 obtain new1 where e1: "objs h1 = objs ha @ new1" by (auto simp: grown_def)
  have tail: "content_f n ha x = content_f n h x" if "x \<in> set ws" for x
    using content_f_ext[OF Cons.prems(2) e] Cons.prems(3) that by simp
  have "within 0 (length (objs h)) w" using Cons.prems(3) by simp
  from f[OF Cons.prems(2) this a] have hd: "content_f n ha y = content_f n h w"
    "content_f n h w \<noteq> None" by simp_all
  have "within 0 (length (objs ha)) y" using wy by (rule within_mono) simp_all
  from content_f_ext[OF cla e1 this] have "content_f n h1 y = content_f n ha y" .
  with hd ih tail c show ?case by auto
qed

lemma cloneDeep_f_ref:
  assumes "cloneDeep_f (Suc n) h (VRef a) = Some (h', v')" and "obj_at h a = Some c"
  shows "\<exists>h1 vs. thread (cloneDeep_f n) h (cell_vals c) = Some (h1, vs)
           \<and> h' = fst (alloc_obj h1 (with_vals c vs)) \<and> v' = VRef (length (objs h1))"
  using assms by (cases c) (auto simp: alloc_obj_def split: option.splits)

lemma content_cell_with_vals:
  assumes "length vs = length (cell_vals c)" and "map f vs = map g (cell_vals c)"
  shows "content_cell f (with_vals c vs) = content_cell g c"
proof (cases c)
  case (CObj fs)
  with assms(1) have "map fst (zip (map fst fs) vs) = map fst fs" "map snd (zip (map fst fs) vs) = vs"
    by simp_all
  with assms(2) CObj show ?thesis by (simp only: content_cell_def with_vals.simps cell.case cell_vals.simps)
next
  case (CArr xs)
  with assms(2) show ?thesis by (simp only: content_cell_def with_vals.simps cell.case cell_vals.simps)
qed

lemma cloneDeep_f_content:
  "closed_objs h \<Longrightarrow> within 0 (length (objs h)) v \<Longrightarrow> cloneDeep_f n h v = Some (h', v') \<Longrightarrow>
     content_f n h' v' = content_f n h v \<and> content_f n h v \<noteq> None"
proof (induction n arbitrary: h v h' v')
  case 0
  then show ?case by (cases v) auto
next
  case (Suc n)
  show ?case
  proof (cases v)
    case (VRef a)
    with Suc.prems(2) have a: "a < length (objs h)" by (simp add: within_def)
    then have o: "obj_at h a = Some (objs h ! a)" by (simp add: obj_at_def)
    have kids: "\<forall>w\<in>set (cell_vals (objs h ! a)). within 0 (length (objs h)) w"
      using Suc.prems(1) a by (auto simp: closed_objs_def)
    from cloneDeep_f_ref[OF Suc.prems(3)[unfolded VRef] o] obtain h1 vs where
      t: "thread (cloneDeep_f n) h (cell_vals (objs h ! a)) = Some (h1, vs)"
      and r: "h' = fst (alloc_obj h1 (with_vals (objs h ! a) vs))" "v' = VRef (length (objs h1))"
      by blast
    from thread_copies[OF cloneDeep_f_copies t] have g: "grown h h1"
      and lv: "length vs = length (cell_vals (objs h ! a))"
      and wv: "\<forall>w\<in>set vs. within (length (objs h)) (length (objs h1)) w" by auto
    note tc = thread_content[where f = "cloneDeep_f n" and n = n,
        OF Suc.IH cloneDeep_f_copies t Suc.prems(1) kids]
    have m: "map (content_f n h1) vs = map (content_f n h) (cell_vals (objs h ! a))"
      using tc by (rule conjunct1)
    have nn: "\<forall>w\<in>set (cell_vals (objs h ! a)). content_f n h w \<noteq> None"
      using tc by (rule conjunct2)
    have cl1: "closed_objs h1" using grown_closed[OF Suc.prems(1) g] .
    have e': "objs h' = objs h1 @ [with_vals (objs h ! a) vs]" using r by (simp add: alloc_obj_def)
    have "content_f n h' x = content_f n h1 x" if "x \<in> set vs" for x
    proof -
      from wv that have "within (length (objs h)) (length (objs h1)) x" by blast
      then have "within 0 (length (objs h1)) x" by (rule within_mono) simp_all
      from content_f_ext[OF cl1 e' this] show ?thesis .
    qed
    then have "map (content_f n h') vs = map (content_f n h1) vs" by simp
    with m have "map (content_f n h') vs = map (content_f n h) (cell_vals (objs h ! a))" by simp
    from content_cell_with_vals[OF lv this]
    have eq: "content_cell (content_f n h') (with_vals (objs h ! a) vs)
                = content_cell (content_f n h) (objs h ! a)" .
    have o': "obj_at h' (length (objs h1)) = Some (with_vals (objs h ! a) vs)"
      using e' by (simp add: obj_at_def)
    have nz: "content_cell (content_f n h) (objs h ! a) \<noteq> None"
    proof (rule content_cell_not_None)
      fix w assume "w \<in> set (cell_vals (objs h ! a))"
      with nn show "content_f n h w \<noteq> None" by blast
    qed
    have "content_f (Suc n) h' v' = content_cell (content_f n h') (with_vals (objs h ! a) vs)"
      using o' r(2) by simp
    moreover have "content_f (Suc n) h v = content_cell (content_f n h) (objs h ! a)"
      using o VRef by simp
    ultimately show ?thesis using eq nz by simp
  qed (use Suc.prems in auto)
qed

text \<open>A value reads the same after an object it does not reach is overwritten.\<close>

lemma content_f_frame:
  "a \<notin> reach H v \<Longrightarrow> content_f n (set_obj H a x) v = content_f n H v"
proof (induction n arbitrary: v)
  case 0
  show ?case by simp
next
  case (Suc n)
  show ?case
  proof (cases v)
    case (VRef b)
    show ?thesis
    proof (cases "b < length (objs H)")
      case True
      with VRef have "b \<in> reach H v" by (auto intro: reach.root)
      with Suc.prems have ne: "b \<noteq> a" by auto
      with True have o: "obj_at (set_obj H a x) b = Some (objs H ! b)" "obj_at H b = Some (objs H ! b)"
        by (simp_all add: obj_at_def set_obj_def)
      have "content_cell (content_f n (set_obj H a x)) (objs H ! b) = content_cell (content_f n H) (objs H ! b)"
      proof (rule content_cell_cong)
        fix w assume "w \<in> set (cell_vals (objs H ! b))"
        from reach_child[OF True this] Suc.prems VRef have "a \<notin> reach H w" by auto
        then show "content_f n (set_obj H a x) w = content_f n H w" by (rule Suc.IH)
      qed
      with VRef o show ?thesis by simp
    next
      case False
      with VRef show ?thesis by (simp add: obj_at_def set_obj_def)
    qed
  qed simp_all
qed

lemma content_of_frame: "a \<notin> reach H v \<Longrightarrow> content_of (set_obj H a x) v = content_of H v"
  using content_f_frame[of a H v "length (objs H)" x] by (simp add: content_of_def set_obj_def)

subsection \<open>Where the objects of a clone live\<close>

lemma grown_region:
  assumes "grown h h'" and "objs H = objs h' @ rest"
  shows "\<forall>a. length (objs h) \<le> a \<and> a < length (objs h') \<and> a < length (objs H) \<longrightarrow>
            (\<forall>w\<in>set (cell_vals (objs H ! a)). within (length (objs h)) (length (objs h')) w)"
proof (intro allI impI ballI)
  fix a w
  assume a: "length (objs h) \<le> a \<and> a < length (objs h') \<and> a < length (objs H)"
    and w: "w \<in> set (cell_vals (objs H ! a))"
  from assms(1) obtain new where
    n: "objs h' = objs h @ new"
    and f: "\<forall>c\<in>set new. \<forall>w\<in>set (cell_vals c). within (length (objs h)) (length (objs h')) w"
    by (auto simp: grown_def)
  from a n have i: "a - length (objs h) < length new" by auto
  from a n assms(2) i have "objs H ! a = new ! (a - length (objs h))"
    by (simp add: nth_append)
  with i have "objs H ! a \<in> set new" by simp
  with f w show "within (length (objs h)) (length (objs h')) w" by blast
qed

lemma closed_region:
  assumes "closed_objs h" and "objs H = objs h @ rest"
  shows "\<forall>a. 0 \<le> a \<and> a < length (objs h) \<and> a < length (objs H) \<longrightarrow>
            (\<forall>w\<in>set (cell_vals (objs H ! a)). within 0 (length (objs h)) w)"
proof (intro allI impI ballI)
  fix a w
  assume a: "0 \<le> a \<and> a < length (objs h) \<and> a < length (objs H)"
    and w: "w \<in> set (cell_vals (objs H ! a))"
  from a assms(2) have "objs H ! a = objs h ! a" by (simp add: nth_append)
  with a have "objs H ! a \<in> set (objs h)" by simp
  with assms(1) w show "within 0 (length (objs h)) w" by (auto simp: closed_objs_def)
qed

text \<open>
  The parameters of a clone read as the parameters of the node it was made from, in every
  store that extends the one the clone was made in.
\<close>

lemma clone_content:
  assumes cl: "closed_objs h"
    and wf: "within 0 (length (objs h)) (flow_params T)"
    and wn: "within 0 (length (objs h)) (node_params T)"
    and c: "clone h t = Some (h1, a)" and t: "node_at h t = Some T"
    and H: "objs H = objs h1 @ rest"
  shows "\<exists>t1 t2. content_of H (flow_params T) = Some t1
              \<and> content_of H (flow_params (nodes h1 ! a)) = Some t1
              \<and> content_of H (node_params T) = Some t2
              \<and> content_of H (node_params (nodes h1 ! a)) = Some t2"
proof -
  from clone_cases[OF c t] obtain hb hc fp hd np m where
    nb: "BaseNode_new h (clone_kind (kind T)) = (hb, a)"
    and cd1: "cloneDeep hb (flow_params T) = Some (hc, fp)"
    and cd2: "cloneDeep hc (node_params T) = Some (hd, np)"
    and mm: "map_at hd (successors T) = Some m"
    and res: "h1 = set_node (fst (alloc_map hd m)) a
                 \<lparr>kind = clone_kind (kind T), flow_params = fp, node_params = np,
                  successors = snd (alloc_map hd m)\<rparr>"
    by blast
  note sb = BaseNode_new_shape[OF nb]
  have gb: "grown h hb" using grown_BaseNode_new[OF nb] .
  from cloneDeep_copies[OF cd1] have g1: "grown hb hc" and n1: "nodes hc = nodes hb"
    and w1: "within (length (objs hb)) (length (objs hc)) fp" by simp_all
  from cloneDeep_copies[OF cd2] have g2: "grown hc hd" and n2: "nodes hd = nodes hc"
    and w2: "within (length (objs hc)) (length (objs hd)) np" by simp_all
  have clb: "closed_objs hb" using grown_closed[OF cl gb] .
  have clc: "closed_objs hc" using grown_closed[OF clb g1] .
  have cld: "closed_objs hd" using grown_closed[OF clc g2] .
  note lb = grown_length[OF gb] and lc = grown_length[OF g1] and ld = grown_length[OF g2]
  have o1: "objs h1 = objs hd" using res by (simp add: set_node_def alloc_map_def)
  from g1 obtain new1 where e1: "objs hc = objs hb @ new1" by (auto simp: grown_def)
  from g2 obtain new2 where e2: "objs hd = objs hc @ new2" by (auto simp: grown_def)
  have Hd: "objs H = objs hd @ rest" using H o1 by simp
  have Hc: "objs H = objs hc @ (new2 @ rest)" using Hd e2 by simp
  have Hb: "objs H = objs hb @ (new1 @ new2 @ rest)" using Hc e1 by simp
  have lHb: "length (objs hb) \<le> length (objs H)" using Hb by simp
  have lHc: "length (objs hc) \<le> length (objs H)" using Hc by simp
  have wfb: "within 0 (length (objs hb)) (flow_params T)"
    using wf by (rule within_mono) (use lb in simp_all)
  have wnc: "within 0 (length (objs hc)) (node_params T)"
    using wn by (rule within_mono) (use lb lc in simp_all)
  have wfp: "within 0 (length (objs hc)) fp"
    using w1 by (rule within_mono) simp_all
  have wnp: "within 0 (length (objs hd)) np"
    using w2 by (rule within_mono) simp_all
  from cloneDeep_f_content[OF clb wfb cd1[unfolded cloneDeep_def]] obtain t1 where
    f1: "content_f (length (objs hb)) hb (flow_params T) = Some t1"
    and f2: "content_f (length (objs hb)) hc fp = Some t1"
    by auto
  from cloneDeep_f_content[OF clc wnc cd2[unfolded cloneDeep_def]] obtain t2 where
    p1: "content_f (length (objs hc)) hc (node_params T) = Some t2"
    and p2: "content_f (length (objs hc)) hd np = Some t2"
    by auto
  have "nodes h1 = (nodes h @ [\<lparr>kind = clone_kind (kind T), flow_params = VRef (length (objs h)),
              node_params = VRef (Suc (length (objs h))), successors = length (maps h)\<rparr>])
            [a := \<lparr>kind = clone_kind (kind T), flow_params = fp, node_params = np,
                  successors = snd (alloc_map hd m)\<rparr>]"
    using res sb n1 n2 by (simp add: set_node_def alloc_map_def)
  moreover have "a = length (nodes h)" using sb by simp
  ultimately have na: "flow_params (nodes h1 ! a) = fp" "node_params (nodes h1 ! a) = np"
    by simp_all
  from content_stable[OF clb Hb wfb f1 lHb] content_stable[OF clc Hc wfp f2 lHb]
    content_stable[OF clc Hc wnc p1 lHc] content_stable[OF cld Hd wnp p2 lHc] na
  show ?thesis by simp
qed

lemma setParams_frame:
  "setParams h c p q = Some h' \<Longrightarrow> b \<noteq> c \<Longrightarrow>
     node_at h' b = node_at h b \<and> objs h' = objs h \<and> maps h' = maps h"
  by (auto simp: setParams_def set_node_def node_at_def split: option.splits)

lemma addSuccessor_frame:
  "addSuccessor h c x action = Some (Inr h') \<Longrightarrow> node_at h c = Some C \<Longrightarrow> s \<noteq> successors C \<Longrightarrow>
     map_at h' s = map_at h s"
  by (auto simp: addSuccessor_def set_map_def map_at_def split: option.splits if_splits)

lemma same_params_frame:
  "a \<notin> param_objs H n \<Longrightarrow> same_params (set_obj H a x) H n"
  by (simp add: same_params_def param_objs_def content_of_frame)

text \<open>
  C3. \<^verbatim>\<open>clone\<close> deep-copies \<^verbatim>\<open>flow_params\<close> and \<^verbatim>\<open>node_params\<close> and shallow-copies
  the successor Map. In a store without dangling references, let a template be cloned
  twice. Then the template is still the node it was; the parameters of each clone read as
  the template's, yet no object of them is an object of the template's parameters or of the
  other clone's; each clone has a Map of its own that holds the template's entries, the same
  successor nodes under the same actions. Hence overwriting any object of one clone's
  parameters, or giving that clone other parameters with \<^verbatim>\<open>setParams\<close>, leaves the
  parameters of the template and of the other clone as they were, and an \<^verbatim>\<open>addSuccessor\<close>
  on a clone leaves the template's Map as it was.
\<close>

theorem clone_independent:
  assumes cs: "closed_store h" and t: "node_at h t = Some T"
    and k1: "clone h t = Some (h1, c1)" and k2: "clone h1 t = Some (h2, c2)"
  shows "\<exists>C1 C2.
      node_at h2 t = Some T \<and> node_at h2 c1 = Some C1 \<and> node_at h2 c2 = Some C2
    \<and> content_of h2 (flow_params T) \<noteq> None \<and> content_of h2 (node_params T) \<noteq> None
    \<and> (\<forall>C\<in>{C1, C2}.
           content_of h2 (flow_params C) = content_of h2 (flow_params T)
         \<and> content_of h2 (node_params C) = content_of h2 (node_params T)
         \<and> param_objs h2 C \<inter> param_objs h2 T = {}
         \<and> successors C \<noteq> successors T
         \<and> map_at h2 (successors C) = map_at h2 (successors T))
    \<and> param_objs h2 C1 \<inter> param_objs h2 C2 = {} \<and> successors C1 \<noteq> successors C2
    \<and> (\<forall>a x. a \<in> param_objs h2 C1 \<longrightarrow>
           same_params (set_obj h2 a x) h2 T \<and> same_params (set_obj h2 a x) h2 C2)
    \<and> (\<forall>a x. a \<in> param_objs h2 C2 \<longrightarrow>
           same_params (set_obj h2 a x) h2 T \<and> same_params (set_obj h2 a x) h2 C1)
    \<and> (\<forall>p q h3. setParams h2 c1 p q = Some h3 \<longrightarrow>
           node_at h3 t = Some T \<and> node_at h3 c2 = Some C2 \<and> objs h3 = objs h2)
    \<and> (\<forall>p q h3. setParams h2 c2 p q = Some h3 \<longrightarrow>
           node_at h3 t = Some T \<and> node_at h3 c1 = Some C1 \<and> objs h3 = objs h2)
    \<and> (\<forall>c\<in>{c1, c2}. \<forall>x action h3. addSuccessor h2 c x action = Some (Inr h3) \<longrightarrow>
           map_at h3 (successors T) = map_at h2 (successors T))"
proof -
  from t have tl: "t < length (nodes h)" and Tn: "T = nodes h ! t"
    by (auto simp: node_at_def split: if_splits)
  then have Tin: "T \<in> set (nodes h)" by simp
  from cs Tin have clo: "closed_objs h"
    and wf: "within 0 (length (objs h)) (flow_params T)"
    and wn: "within 0 (length (objs h)) (node_params T)"
    and sT: "successors T < length (maps h)"
    by (auto simp: closed_store_def)
  from clone_shape[OF k1 t sT] obtain fp1 np1 where
    g1: "grown h h1" and a1: "c1 = length (nodes h)"
    and n1: "nodes h1 = nodes h @ [\<lparr>kind = clone_kind (kind T), flow_params = fp1, node_params = np1,
                                      successors = Suc (length (maps h))\<rparr>]"
    and m1: "maps h1 = maps h @ [[], maps h ! successors T]"
    and w1f: "within (length (objs h)) (length (objs h1)) fp1"
    and w1n: "within (length (objs h)) (length (objs h1)) np1"
    by blast
  define C1 where "C1 = \<lparr>kind = clone_kind (kind T), flow_params = fp1, node_params = np1,
                          successors = Suc (length (maps h))\<rparr>"
  have t1: "node_at h1 t = Some T" using tl Tn n1 by (simp add: node_at_def nth_append)
  have sT1: "successors T < length (maps h1)" using sT m1 by simp
  from clone_shape[OF k2 t1 sT1] obtain fp2 np2 where
    g2: "grown h1 h2" and a2: "c2 = length (nodes h1)"
    and n2: "nodes h2 = nodes h1 @ [\<lparr>kind = clone_kind (kind T), flow_params = fp2, node_params = np2,
                                       successors = Suc (length (maps h1))\<rparr>]"
    and m2: "maps h2 = maps h1 @ [[], maps h1 ! successors T]"
    and w2f: "within (length (objs h1)) (length (objs h2)) fp2"
    and w2n: "within (length (objs h1)) (length (objs h2)) np2"
    by blast
  define C2 where "C2 = \<lparr>kind = clone_kind (kind T), flow_params = fp2, node_params = np2,
                          successors = Suc (length (maps h1))\<rparr>"
  have Nt: "node_at h2 t = Some T"
    using tl Tn n1 n2 by (simp add: node_at_def nth_append)
  have N1: "node_at h2 c1 = Some C1"
    using n1 n2 a1 by (simp add: node_at_def nth_append C1_def)
  have N2: "node_at h2 c2 = Some C2"
    using n2 a2 by (simp add: node_at_def nth_append C2_def)
  have ne: "t \<noteq> c1" "t \<noteq> c2" "c1 \<noteq> c2"
    using tl a1 a2 n1 by simp_all

  from g1 obtain new1 where e1: "objs h1 = objs h @ new1" by (auto simp: grown_def)
  from g2 obtain new2 where e2: "objs h2 = objs h1 @ new2" by (auto simp: grown_def)
  have e0: "objs h2 = objs h @ (new1 @ new2)" using e1 e2 by simp
  have e22: "objs h2 = objs h2 @ []" by simp
  have cl1: "closed_objs h1" using grown_closed[OF clo g1] .
  have wf1: "within 0 (length (objs h1)) (flow_params T)"
    using wf by (rule within_mono) (simp_all add: e1)
  have wn1: "within 0 (length (objs h1)) (node_params T)"
    using wn by (rule within_mono) (simp_all add: e1)

  have i1: "nodes h1 ! c1 = C1" using a1 n1 by (simp add: C1_def)
  have i2: "nodes h2 ! c2 = C2" using a2 n2 by (simp add: C2_def)
  from clone_content[OF clo wf wn k1 t e2] i1 obtain tf tn where
    c0f: "content_of h2 (flow_params T) = Some tf"
    and c1f: "content_of h2 (flow_params C1) = Some tf"
    and c0n: "content_of h2 (node_params T) = Some tn"
    and c1n: "content_of h2 (node_params C1) = Some tn"
    by auto
  from clone_content[OF cl1 wf1 wn1 k2 t1 e22] i2 c0f c0n have
    c2f: "content_of h2 (flow_params C2) = Some tf"
    and c2n: "content_of h2 (node_params C2) = Some tn"
    by auto

  note r0 = closed_region[OF clo e0]
  note r1 = grown_region[OF g1 e2]
  note r2 = grown_region[OF g2 e22]
  have R0: "param_objs h2 T \<subseteq> {0..<length (objs h)}"
    using reach_region[OF wf r0] reach_region[OF wn r0] by (simp add: param_objs_def)
  have R1: "param_objs h2 C1 \<subseteq> {length (objs h)..<length (objs h1)}"
    using reach_region[OF w1f r1] reach_region[OF w1n r1] by (simp add: param_objs_def C1_def)
  have R2: "param_objs h2 C2 \<subseteq> {length (objs h1)..<length (objs h2)}"
    using reach_region[OF w2f r2] reach_region[OF w2n r2] by (simp add: param_objs_def C2_def)
  have L: "length (objs h) \<le> length (objs h1)" using e1 by simp
  have D1: "param_objs h2 C1 \<inter> param_objs h2 T = {}" using R0 R1 by fastforce
  have D2: "param_objs h2 C2 \<inter> param_objs h2 T = {}" using R0 R2 L by fastforce
  have D12: "param_objs h2 C1 \<inter> param_objs h2 C2 = {}" using R1 R2 by fastforce

  have S1: "successors C1 \<noteq> successors T" using sT by (simp add: C1_def)
  have S2: "successors C2 \<noteq> successors T" using sT m1 by (simp add: C2_def)
  have S12: "successors C1 \<noteq> successors C2" using m1 by (simp add: C1_def C2_def)
  have M0: "map_at h2 (successors T) = Some (maps h ! successors T)"
    using sT m1 m2 by (simp add: map_at_def nth_append)
  have M1: "map_at h2 (successors C1) = map_at h2 (successors T)"
    unfolding M0 using m1 m2 by (simp add: map_at_def nth_append C1_def)
  have M2: "map_at h2 (successors C2) = map_at h2 (successors T)"
    unfolding M0 using sT m1 m2 by (simp add: map_at_def nth_append C2_def)

  have A: "node_at h2 t = Some T \<and> node_at h2 c1 = Some C1 \<and> node_at h2 c2 = Some C2"
    using Nt N1 N2 by simp
  have B: "content_of h2 (flow_params T) \<noteq> None \<and> content_of h2 (node_params T) \<noteq> None"
    using c0f c0n by simp
  have C: "\<forall>C\<in>{C1, C2}.
           content_of h2 (flow_params C) = content_of h2 (flow_params T)
         \<and> content_of h2 (node_params C) = content_of h2 (node_params T)
         \<and> param_objs h2 C \<inter> param_objs h2 T = {}
         \<and> successors C \<noteq> successors T
         \<and> map_at h2 (successors C) = map_at h2 (successors T)"
    using c0f c0n c1f c1n c2f c2n D1 D2 S1 S2 M1 M2 by simp
  have D: "param_objs h2 C1 \<inter> param_objs h2 C2 = {} \<and> successors C1 \<noteq> successors C2"
    using D12 S12 by simp
  have E1: "\<forall>a x. a \<in> param_objs h2 C1 \<longrightarrow>
           same_params (set_obj h2 a x) h2 T \<and> same_params (set_obj h2 a x) h2 C2"
  proof (intro allI impI conjI)
    fix a x assume a: "a \<in> param_objs h2 C1"
    with D1 have "a \<notin> param_objs h2 T" by blast
    then show "same_params (set_obj h2 a x) h2 T" by (rule same_params_frame)
    from a D12 have "a \<notin> param_objs h2 C2" by blast
    then show "same_params (set_obj h2 a x) h2 C2" by (rule same_params_frame)
  qed
  have E2: "\<forall>a x. a \<in> param_objs h2 C2 \<longrightarrow>
           same_params (set_obj h2 a x) h2 T \<and> same_params (set_obj h2 a x) h2 C1"
  proof (intro allI impI conjI)
    fix a x assume a: "a \<in> param_objs h2 C2"
    with D2 have "a \<notin> param_objs h2 T" by blast
    then show "same_params (set_obj h2 a x) h2 T" by (rule same_params_frame)
    from a D12 have "a \<notin> param_objs h2 C1" by blast
    then show "same_params (set_obj h2 a x) h2 C1" by (rule same_params_frame)
  qed
  have F1: "\<forall>p q h3. setParams h2 c1 p q = Some h3 \<longrightarrow>
           node_at h3 t = Some T \<and> node_at h3 c2 = Some C2 \<and> objs h3 = objs h2"
    using setParams_frame[of h2 c1 _ _ _ t] setParams_frame[of h2 c1 _ _ _ c2] ne Nt N2
    by (intro allI impI) simp
  have F2: "\<forall>p q h3. setParams h2 c2 p q = Some h3 \<longrightarrow>
           node_at h3 t = Some T \<and> node_at h3 c1 = Some C1 \<and> objs h3 = objs h2"
    using setParams_frame[of h2 c2 _ _ _ t] setParams_frame[of h2 c2 _ _ _ c1] ne Nt N1
    by (intro allI impI) simp
  have G: "\<forall>c\<in>{c1, c2}. \<forall>x action h3. addSuccessor h2 c x action = Some (Inr h3) \<longrightarrow>
           map_at h3 (successors T) = map_at h2 (successors T)"
    using addSuccessor_frame[OF _ N1 S1[symmetric]] addSuccessor_frame[OF _ N2 S2[symmetric]]
    by simp
  from A B C D E1 E2 F1 F2 G show ?thesis by blast
qed

theorem clone_independent_witness:
  "closed_store nested_template
 \<and> node_at nested_template 0 = Some template_node
 \<and> clone nested_template 0 = Some (cloned_once, 2)
 \<and> clone cloned_once 0 = Some (cloned_twice, 3)
 \<and> node_at cloned_twice 0 = Some template_node
 \<and> node_at cloned_twice 2 = Some first_clone
 \<and> node_at cloned_twice 3 = Some second_clone
 \<and> content_of cloned_twice (node_params first_clone) = content_of cloned_twice (node_params template_node)
 \<and> content_of cloned_twice (node_params second_clone) = content_of cloned_twice (node_params template_node)
 \<and> map_at cloned_twice (successors first_clone) = map_at cloned_twice (successors template_node)
 \<and> 9 \<in> param_objs cloned_twice first_clone
 \<and> content_of first_clone_mutated (node_params first_clone)
       = Some (TObj [(''id'', Leaf (VStr ''p'')),
                     (''properties'', TObj [(''tools'', TArr [Leaf (VStr ''fetch'')])])])
 \<and> same_params first_clone_mutated cloned_twice template_node
 \<and> same_params first_clone_mutated cloned_twice second_clone
 \<and> addSuccessor cloned_twice 2 1 ''e2'' = Some (Inr successor_added)
 \<and> map_at successor_added (successors first_clone) = Some [(''e1'', 1), (''e2'', 1)]
 \<and> map_at successor_added (successors template_node) = map_at cloned_twice (successors template_node)"
proof -
  have a: "closed_store nested_template" by code_simp
  have b: "node_at nested_template 0 = Some template_node" by code_simp
  have c: "clone nested_template 0 = Some (cloned_once, 2)" by code_simp
  have d: "clone cloned_once 0 = Some (cloned_twice, 3)" by code_simp
  have n1: "node_at cloned_twice 2 = Some first_clone" by code_simp
  have n2: "node_at cloned_twice 3 = Some second_clone" by code_simp
  have s: "addSuccessor cloned_twice 2 1 ''e2'' = Some (Inr successor_added)" by code_simp
  have m: "map_at successor_added (successors first_clone) = Some [(''e1'', 1), (''e2'', 1)]"
    by code_simp
  have x: "content_of first_clone_mutated (node_params first_clone)
       = Some (TObj [(''id'', Leaf (VStr ''p'')),
                     (''properties'', TObj [(''tools'', TArr [Leaf (VStr ''fetch'')])])])"
    by code_simp
  have r11: "11 \<in> reach cloned_twice (VRef 11)"
    by (rule reach.root) (simp_all add: cloned_twice_def)
  have r10: "10 \<in> reach cloned_twice (VRef 11)"
    by (rule reach.step[OF r11]) (simp_all add: cloned_twice_def)
  have r9: "9 \<in> reach cloned_twice (VRef 11)"
    by (rule reach.step[OF r10]) (simp_all add: cloned_twice_def)
  then have p: "9 \<in> param_objs cloned_twice first_clone"
    by (simp add: param_objs_def first_clone_def)
  from clone_independent[OF a b c d] obtain C1 C2 where
    N: "node_at cloned_twice 0 = Some template_node" "node_at cloned_twice 2 = Some C1"
       "node_at cloned_twice 3 = Some C2"
    and C: "\<forall>C\<in>{C1, C2}.
           content_of cloned_twice (flow_params C) = content_of cloned_twice (flow_params template_node)
         \<and> content_of cloned_twice (node_params C) = content_of cloned_twice (node_params template_node)
         \<and> param_objs cloned_twice C \<inter> param_objs cloned_twice template_node = {}
         \<and> successors C \<noteq> successors template_node
         \<and> map_at cloned_twice (successors C) = map_at cloned_twice (successors template_node)"
    and E: "\<forall>a x. a \<in> param_objs cloned_twice C1 \<longrightarrow>
           same_params (set_obj cloned_twice a x) cloned_twice template_node
         \<and> same_params (set_obj cloned_twice a x) cloned_twice C2"
    and G: "\<forall>c\<in>{2, 3}. \<forall>x action h3. addSuccessor cloned_twice c x action = Some (Inr h3) \<longrightarrow>
           map_at h3 (successors template_node) = map_at cloned_twice (successors template_node)"
    by (elim exE conjE) (rule that)
  from N n1 n2 have e: "C1 = first_clone" "C2 = second_clone" by simp_all
  from C e have q: "content_of cloned_twice (node_params first_clone)
                      = content_of cloned_twice (node_params template_node)"
    "content_of cloned_twice (node_params second_clone)
                      = content_of cloned_twice (node_params template_node)"
    "map_at cloned_twice (successors first_clone) = map_at cloned_twice (successors template_node)"
    by simp_all
  from E p e have f: "same_params first_clone_mutated cloned_twice template_node"
    "same_params first_clone_mutated cloned_twice second_clone"
    unfolding first_clone_mutated_def by blast+
  from G s have g: "map_at successor_added (successors template_node)
                      = map_at cloned_twice (successors template_node)"
    by blast
  from a b c d N(1) n1 n2 q p x f s m g show ?thesis by simp
qed

end
